theory Spec2Isabelle
  imports Main
begin

section \<open>Bytes and strings\<close>

text \<open>
  The worker keeps the document in a \<^verbatim>\<open>Uint8Array\<close> and, for the regular expressions, in a
  string with one character per byte (\<^verbatim>\<open>bytesToString\<close>: \<^verbatim>\<open>String.fromCharCode(b & 0xFF)\<close>).
  An Isabelle \<^typ>\<open>char\<close> is exactly one byte (0..255), so both the byte buffer and the
  string are \<^typ>\<open>string\<close> here, and the two conversions are the identity.
\<close>

type_synonym bytes = string

definition bytesToString :: "bytes \<Rightarrow> string" where
  "bytesToString bs = bs"

definition stringToBytes :: "string \<Rightarrow> bytes" where
  "stringToBytes s = s"

definition space :: char where
  "space = CHR 0x20"

definition dquote :: char where
  "dquote = CHR 0x22"

definition squote :: char where
  "squote = CHR 0x27"

definition backslash :: char where
  "backslash = CHR 0x5C"

definition CR :: char where
  "CR = CHR 0x0D"

definition LF :: char where
  "LF = CHR 0x0A"

text \<open>
  The characters below 256 that JavaScript's \<^verbatim>\<open>\s\<close> and \<^verbatim>\<open>trim\<close> treat as white space:
  TAB, LF, VT, FF, CR, SPACE and NBSP.
\<close>

definition isSpace :: "char \<Rightarrow> bool" where
  "isSpace c = List.member [CHR 0x09, CHR 0x0A, CHR 0x0B, CHR 0x0C, CHR 0x0D, CHR 0x20, CHR 0xA0] c"

definition isDigit :: "char \<Rightarrow> bool" where
  "isDigit c = List.member ''0123456789'' c"

text \<open>
  Canonicalisation under the \<^verbatim>\<open>i\<close> flag. Every letter of the source's patterns is ASCII, and
  no character of 128..255 canonicalises to an ASCII letter, so folding the ASCII letters
  is all that the flag does on byte strings.
\<close>

definition canon :: "char \<Rightarrow> char" where
  "canon c = (case map_of (zip ''abcdefghijklmnopqrstuvwxyz'' ''ABCDEFGHIJKLMNOPQRSTUVWXYZ'') c of
                Some u \<Rightarrow> u | None \<Rightarrow> c)"

fun startsWith :: "string \<Rightarrow> string \<Rightarrow> bool" where
  "startsWith s [] = True"
| "startsWith [] (p # ps) = False"
| "startsWith (c # cs) (p # ps) = (c = p \<and> startsWith cs ps)"

fun includesStr :: "string \<Rightarrow> string \<Rightarrow> bool" where
  "includesStr [] sub = (sub = [])"
| "includesStr (c # cs) sub = (startsWith (c # cs) sub \<or> includesStr cs sub)"

definition substring :: "string \<Rightarrow> nat \<Rightarrow> nat \<Rightarrow> string" where
  "substring s a b = take (max a b - min a b) (drop (min a b) s)"

definition trim :: "string \<Rightarrow> string" where
  "trim s = rev (dropWhile isSpace (rev (dropWhile isSpace s)))"

function decimal :: "nat \<Rightarrow> string" where
  "decimal n = (if n < 10 then [''0123456789'' ! n]
                else decimal (n div 10) @ [''0123456789'' ! (n mod 10)])"
  by pat_completeness auto
termination
  by (relation "measure id") auto

section \<open>Regular expressions\<close>

text \<open>
  The fragment of JavaScript regular expressions that the worker's patterns use: single
  characters and character classes, greedy and lazy repetition of one character, an optional
  character, and an alternative. Matching is by backtracking in the priority order of
  ECMAScript, so the match found at a position is the one \<^verbatim>\<open>exec\<close> returns.
\<close>

datatype atom =
    Ch char
  | ChI char
  | Sp
  | Dg
  | AnyCh
  | In bool "char list"
  | NotIn bool "char list"

text \<open>
  \<open>Ch c\<close> is the literal \<open>c\<close>, \<open>ChI c\<close> the literal under the \<^verbatim>\<open>i\<close> flag, \<open>Sp\<close> is
  \<^verbatim>\<open>\s\<close>, \<open>Dg\<close> is \<^verbatim>\<open>\d\<close>, \<open>AnyCh\<close> is \<^verbatim>\<open>[\s\S]\<close>. \<open>In ws cs\<close> is the class of the
  listed characters, with \<^verbatim>\<open>\s\<close> as a member when \<open>ws\<close> holds; \<open>NotIn ws cs\<close> is its
  complement \<^verbatim>\<open>[^...]\<close>.
\<close>

fun atomOK :: "atom \<Rightarrow> char \<Rightarrow> bool" where
  "atomOK (Ch c) x = (x = c)"
| "atomOK (ChI c) x = (canon x = canon c)"
| "atomOK Sp x = isSpace x"
| "atomOK Dg x = isDigit x"
| "atomOK AnyCh x = True"
| "atomOK (In ws cs) x = ((ws \<and> isSpace x) \<or> List.member cs x)"
| "atomOK (NotIn ws cs) x = (\<not> ((ws \<and> isSpace x) \<or> List.member cs x))"

datatype item =
    One atom
  | Star atom
  | Lazy atom
  | Opt atom
  | Alt "item list" "item list"

definition lit :: "string \<Rightarrow> item list" where
  "lit s = map (\<lambda>c. One (Ch c)) s"

definition litI :: "string \<Rightarrow> item list" where
  "litI s = map (\<lambda>c. One (ChI c)) s"

definition plus :: "atom \<Rightarrow> item list" where
  "plus a = [One a, Star a]"

text \<open>
  \<open>matchItems r s\<close> is the length of the match of the sequence \<open>r\<close> at the start of \<open>s\<close>.
  A greedy star first tries one more character and falls back to none; a lazy star first
  tries none; an alternative tries its left branch with the rest of the pattern, then its
  right branch.
\<close>

function matchItems :: "item list \<Rightarrow> string \<Rightarrow> nat option" where
  "matchItems [] s = Some 0"
| "matchItems (One a # r) [] = None"
| "matchItems (One a # r) (x # xs) =
     (if atomOK a x then map_option Suc (matchItems r xs) else None)"
| "matchItems (Star a # r) [] = matchItems r []"
| "matchItems (Star a # r) (x # xs) =
     (if atomOK a x
      then (case matchItems (Star a # r) xs of
              Some n \<Rightarrow> Some (Suc n)
            | None \<Rightarrow> matchItems r (x # xs))
      else matchItems r (x # xs))"
| "matchItems (Lazy a # r) [] = matchItems r []"
| "matchItems (Lazy a # r) (x # xs) =
     (case matchItems r (x # xs) of
        Some n \<Rightarrow> Some n
      | None \<Rightarrow> (if atomOK a x then map_option Suc (matchItems (Lazy a # r) xs) else None))"
| "matchItems (Opt a # r) [] = matchItems r []"
| "matchItems (Opt a # r) (x # xs) =
     (if atomOK a x
      then (case matchItems r xs of
              Some n \<Rightarrow> Some (Suc n)
            | None \<Rightarrow> matchItems r (x # xs))
      else matchItems r (x # xs))"
| "matchItems (Alt p q # r) s =
     (case matchItems (p @ r) s of
        Some n \<Rightarrow> Some n
      | None \<Rightarrow> matchItems (q @ r) s)"
  by pat_completeness auto
termination
  by (relation "measures [\<lambda>(r, s). size_list size r, \<lambda>(r, s). length s]")
     auto

text \<open>
  Every pattern of the worker starts with a literal character, kept apart as the first
  component: a match is never empty, which is what makes the worker's
  \<^verbatim>\<open>while ((match = pattern.exec(pdfStr)) !== null)\<close> loops advance.
\<close>

datatype pattern = Pat atom "item list"

fun matchHere :: "pattern \<Rightarrow> string \<Rightarrow> nat option" where
  "matchHere (Pat a r) [] = None"
| "matchHere (Pat a r) (x # xs) =
     (if atomOK a x then map_option Suc (matchItems r xs) else None)"

text \<open>
  \<open>findFrom p s pos\<close> scans the suffix \<open>s\<close>, which starts at offset \<open>pos\<close> of the whole string,
  for the leftmost position where \<open>p\<close> matches, and returns the offset and the length.
  \<open>exec p s lastIndex\<close> is \<^verbatim>\<open>p.exec(s)\<close> of a global pattern whose \<^verbatim>\<open>lastIndex\<close> is set.
\<close>

fun findFrom :: "pattern \<Rightarrow> string \<Rightarrow> nat \<Rightarrow> (nat \<times> nat) option" where
  "findFrom p [] pos = None"
| "findFrom p (x # xs) pos =
     (case matchHere p (x # xs) of
        Some n \<Rightarrow> Some (pos, n)
      | None \<Rightarrow> findFrom p xs (Suc pos))"

definition exec :: "pattern \<Rightarrow> string \<Rightarrow> nat \<Rightarrow> (nat \<times> nat) option" where
  "exec p s lastIndex = findFrom p (drop lastIndex s) lastIndex"

lemma matchHere_pos: "matchHere p s = Some n \<Longrightarrow> 0 < n"
  by (cases p; cases s) (auto split: if_splits)

lemma findFrom_bounds:
  "findFrom p s pos = Some (idx, n) \<Longrightarrow> pos \<le> idx \<and> idx < pos + length s \<and> 0 < n"
proof (induction s arbitrary: pos)
  case Nil
  then show ?case by simp
next
  case (Cons x xs)
  show ?case
  proof (cases "matchHere p (x # xs)")
    case None
    with Cons.prems have "findFrom p xs (Suc pos) = Some (idx, n)" by simp
    from Cons.IH [OF this] show ?thesis by simp
  next
    case (Some k)
    with Cons.prems have "idx = pos" "n = k" by simp_all
    with Some matchHere_pos [of p "x # xs" k] show ?thesis by simp
  qed
qed

lemma exec_bounds:
  "exec p s i = Some (idx, n) \<Longrightarrow> i \<le> idx \<and> idx < length s \<and> 0 < n"
proof -
  assume a: "exec p s i = Some (idx, n)"
  then have f: "findFrom p (drop i s) i = Some (idx, n)" by (simp add: exec_def)
  have "drop i s \<noteq> []" using f by (cases "drop i s") auto
  then have "i < length s" by simp
  with findFrom_bounds [OF f] show ?thesis by simp
qed

text \<open>
  The loop \<^verbatim>\<open>while ((match = p.exec(s)) !== null) { ... }\<close> of a global pattern: each
  \<^verbatim>\<open>exec\<close> starts at \<^verbatim>\<open>lastIndex\<close> and leaves it at the end of the match it returns.
  \<open>execAll p s i\<close> lists the matches (offset, length) the loop visits from \<^verbatim>\<open>lastIndex = i\<close>.
\<close>

function execAll :: "pattern \<Rightarrow> string \<Rightarrow> nat \<Rightarrow> (nat \<times> nat) list" where
  "execAll p s i =
     (case exec p s i of
        None \<Rightarrow> []
      | Some (idx, n) \<Rightarrow> (idx, n) # execAll p s (idx + n))"
  by pat_completeness auto
termination
proof (relation "measure (\<lambda>(p, s, i). Suc (length s) - i)")
  show "wf (measure (\<lambda>(p, s, i). Suc (length s) - i))" by simp
next
  fix p s i x2 idx n
  assume "exec p s i = Some x2" and "(idx, n) = x2"
  then have "exec p s i = Some (idx, n)" by simp
  from exec_bounds [OF this]
  have "Suc (length s) - (idx + n) < Suc (length s) - i" by arith
  then show "((p, s, idx + n), p, s, i) \<in> measure (\<lambda>(p, s, i). Suc (length s) - i)"
    by simp
qed

declare execAll.simps [simp del]


section \<open>The stream region index\<close>

record StreamRange =
  start :: nat
  end' :: nat
  subtype :: "string option"

text \<open>\<^verbatim>\<open>/stream\s*\r?\n/g\<close> and \<^verbatim>\<open>/endstream/g\<close>.\<close>

definition streamPattern :: pattern where
  "streamPattern = Pat (Ch CHR ''s'') (lit ''tream'' @ [Star Sp, Opt (Ch CR), One (Ch LF)])"

definition endstreamPattern :: pattern where
  "endstreamPattern = Pat (Ch CHR ''e'') (lit ''ndstream'')"

text \<open>
  The first loop of \<^verbatim>\<open>findProtectedStreams\<close>: the offset just after every match of the
  stream pattern (\<^verbatim>\<open>streamMatch.index + streamMatch[0].length\<close>).
\<close>

definition streamStarts :: "string \<Rightarrow> nat list" where
  "streamStarts pdfStr = map (\<lambda>(idx, n). idx + n) (execAll streamPattern pdfStr 0)"

text \<open>
  The tag of one range. \<^verbatim>\<open>Math.max(0, streamStart - 500)\<close> is the truncating subtraction
  of \<^typ>\<open>nat\<close>.
\<close>

definition classify :: "string \<Rightarrow> nat \<Rightarrow> nat \<Rightarrow> string option" where
  "classify pdfStr streamStart endIndex =
     (let beforeStream = substring pdfStr (streamStart - 500) streamStart;
          isXFA = (includesStr beforeStream ''/Subtype /XML'' \<or>
                   includesStr beforeStream ''/XFA'' \<or>
                   includesStr beforeStream ''/AcroForm'');
          isMetadata = (includesStr beforeStream ''/Type /Metadata'' \<or>
                        includesStr beforeStream ''/Metadata'');
          streamContentStart = substring pdfStr streamStart (min (streamStart + 500) endIndex);
          contentStartsWithXML = (startsWith (trim streamContentStart) ''<?xml'' \<or>
                                  startsWith (trim streamContentStart) ''<xdp:xdp'' \<or>
                                  startsWith (trim streamContentStart) ''<template'' \<or>
                                  includesStr streamContentStart ''<x:xmpmeta'' \<or>
                                  includesStr streamContentStart ''<rdf:RDF'')
      in if isXFA \<or> contentStartsWithXML then Some ''XML''
         else if isMetadata then Some ''Metadata'' else None)"

text \<open>
  The second loop: for each stream start, \<^verbatim>\<open>endstreamPattern.lastIndex = streamStart\<close> and one
  \<^verbatim>\<open>exec\<close>; a start with no \<^verbatim>\<open>endstream\<close> after it gives no range.
\<close>

fun collectRanges :: "string \<Rightarrow> nat list \<Rightarrow> StreamRange list" where
  "collectRanges pdfStr [] = []"
| "collectRanges pdfStr (streamStart # rest) =
     (case exec endstreamPattern pdfStr streamStart of
        None \<Rightarrow> collectRanges pdfStr rest
      | Some (endIndex, n) \<Rightarrow>
          \<lparr>start = streamStart, end' = endIndex,
           subtype = classify pdfStr streamStart endIndex\<rparr> # collectRanges pdfStr rest)"

definition findProtectedStreams :: "bytes \<Rightarrow> StreamRange list" where
  "findProtectedStreams pdfBytes =
     (let pdfStr = bytesToString pdfBytes in collectRanges pdfStr (streamStarts pdfStr))"

text \<open>\<^verbatim>\<open>!r.subtype\<close>: the tag is absent, or the empty string.\<close>

definition untagged :: "StreamRange \<Rightarrow> bool" where
  "untagged r = (case subtype r of None \<Rightarrow> True | Some t \<Rightarrow> t = [])"

definition isProtected :: "nat \<Rightarrow> StreamRange list \<Rightarrow> bool" where
  "isProtected pos ranges = list_ex (\<lambda>r. start r \<le> pos \<and> pos < end' r \<and> untagged r) ranges"


section \<open>The byte-level cleaner\<close>

record CleaningOptions =
  removeLinks :: bool
  removeForms :: bool
  removeJavascript :: bool

text \<open>
  The working state of \<^verbatim>\<open>cleanPDFBytes\<close>: the copy of the buffer that the rules write to,
  and the report. The value returned adds the warning.
\<close>

record work =
  cleaned :: bytes
  itemsRemoved :: "string list"

record bytesResult = work +
  warning :: "string option"

text \<open>
  \<open>writeAt buf idx vs\<close> is the loop \<^verbatim>\<open>for (i = 0; i < vs.length; i++) buf[idx + i] = vs[i]\<close>.
  A store past the end of a \<^verbatim>\<open>Uint8Array\<close> is ignored, as is \<open>list_update\<close> out of range.
\<close>

fun writeAt :: "bytes \<Rightarrow> nat \<Rightarrow> string \<Rightarrow> bytes" where
  "writeAt buf idx [] = buf"
| "writeAt buf idx (v # vs) = writeAt (buf[idx := v]) (Suc idx) vs"

text \<open>\<^verbatim>\<open>match[0]\<close> of a match at \<open>idx\<close> of length \<open>n\<close>.\<close>

definition matchText :: "string \<Rightarrow> nat \<Rightarrow> nat \<Rightarrow> string" where
  "matchText s idx n = take n (drop idx s)"

text \<open>
  The common shape of the rule loops: for every match of the pattern in the string of the
  original bytes, unless \<^verbatim>\<open>isProtected(match.index, protectedRanges)\<close>, overwrite the buffer
  from \<^verbatim>\<open>match.index\<close> with the rule's text for \<^verbatim>\<open>match[0]\<close> and push the rule's descriptor.
\<close>

definition ruleStep ::
  "(string \<Rightarrow> string) \<Rightarrow> string \<Rightarrow> string \<Rightarrow> StreamRange list \<Rightarrow> nat \<times> nat \<Rightarrow> work \<Rightarrow> work" where
  "ruleStep repl label pdfStr ranges m w =
     (case m of (idx, n) \<Rightarrow>
        if \<not> isProtected idx ranges
        then \<lparr>cleaned = writeAt (cleaned w) idx (repl (matchText pdfStr idx n)),
              itemsRemoved = itemsRemoved w @ [label]\<rparr>
        else w)"

definition rewriteRule ::
  "pattern \<Rightarrow> (string \<Rightarrow> string) \<Rightarrow> string \<Rightarrow> string \<Rightarrow> StreamRange list \<Rightarrow> work \<Rightarrow> work" where
  "rewriteRule p repl label pdfStr ranges w =
     fold (ruleStep repl label pdfStr ranges) (execAll p pdfStr 0) w"

text \<open>\<^verbatim>\<open>for (i = 0; i < match[0].length; i++) cleaned[match.index + i] = 32\<close>.\<close>

definition blankText :: "string \<Rightarrow> string" where
  "blankText m = replicate (length m) space"

text \<open>
  \<^verbatim>\<open>for (i < match[0].length) cleaned[match.index + i] =
      i < replacement.length ? replacement.charCodeAt(i) : 32\<close>.
\<close>

definition paddedText :: "string \<Rightarrow> string \<Rightarrow> string" where
  "paddedText replacement m =
     map (\<lambda>i. if i < length replacement then replacement ! i else space) [0..<length m]"

text \<open>
  The Names rule writes all of \<^verbatim>\<open>'/Names<<>>'\<close> and then spaces from its length up to the
  length of the match.
\<close>

definition namesText :: "string \<Rightarrow> string" where
  "namesText m = ''/Names<<>>'' @ replicate (length m - length ''/Names<<>>'') space"

text \<open>
  \<^verbatim>\<open>'about:blank'\<close> padded with spaces while shorter than the URL, then cut to its length.
\<close>

definition padUrl :: "string \<Rightarrow> string" where
  "padUrl url =
     substring (''about:blank'' @ replicate (length url - length ''about:blank'') space)
       0 (length url)"

text \<open>
  \<^verbatim>\<open>s.replace(p, f)\<close> with a global pattern: every match, found from left to right after
  the one before, is replaced by \<open>f\<close> of its text.
\<close>

fun replaceMatches :: "string \<Rightarrow> nat \<Rightarrow> (nat \<times> nat) list \<Rightarrow> (string \<Rightarrow> string) \<Rightarrow> string" where
  "replaceMatches s pos [] f = drop pos s"
| "replaceMatches s pos ((idx, n) # ms) f =
     substring s pos idx @ f (matchText s idx n) @ replaceMatches s (idx + n) ms f"

definition jsReplace :: "pattern \<Rightarrow> (string \<Rightarrow> string) \<Rightarrow> string \<Rightarrow> string" where
  "jsReplace p f s = replaceMatches s 0 (execAll p s 0) f"

subsection \<open>The patterns\<close>

text \<open>\<^verbatim>\<open>/\/OpenAction\s*(<<[^>]*>>|\d+\s+\d+\s+R)/g\<close>\<close>

definition openActionPattern :: pattern where
  "openActionPattern =
     Pat (Ch CHR ''/'')
       (lit ''OpenAction'' @ [Star Sp,
          Alt (lit ''<<'' @ [Star (NotIn False ''>'')] @ lit ''>>'')
              (plus Dg @ plus Sp @ plus Dg @ plus Sp @ lit ''R'')])"

text \<open>\<^verbatim>\<open>/\/AA\s*<<[^>]*>>/g\<close>\<close>

definition aaPattern :: pattern where
  "aaPattern =
     Pat (Ch CHR ''/'') (lit ''AA'' @ [Star Sp] @ lit ''<<'' @ [Star (NotIn False ''>'')] @ lit ''>>'')"

text \<open>\<^verbatim>\<open>/\/Names\s*<<[^>]*\/JavaScript\s*<<[^>]*>>/g\<close>\<close>

definition namesJsPattern :: pattern where
  "namesJsPattern =
     Pat (Ch CHR ''/'')
       (lit ''Names'' @ [Star Sp] @ lit ''<<'' @ [Star (NotIn False ''>'')] @
        lit ''/JavaScript'' @ [Star Sp] @ lit ''<<'' @ [Star (NotIn False ''>'')] @ lit ''>>'')"

text \<open>\<^verbatim>\<open>/\/XFA\s*\d+\s+\d+\s+R/g\<close>\<close>

definition xfaPattern :: pattern where
  "xfaPattern =
     Pat (Ch CHR ''/'')
       (lit ''XFA'' @ [Star Sp] @ plus Dg @ plus Sp @ plus Dg @ plus Sp @ lit ''R'')"

text \<open>
  \<^verbatim>\<open>/<TAG[^>]*ATTR\s*=\s*["'][^"']*http[^"']*["'][^>]*>/gi\<close> for the tags \<^verbatim>\<open>submit\<close>,
  \<^verbatim>\<open>xdp:submit\<close> and the attributes \<^verbatim>\<open>target\<close>, \<^verbatim>\<open>href\<close>.
\<close>

definition xfaUrlPattern :: "string \<Rightarrow> string \<Rightarrow> pattern" where
  "xfaUrlPattern tag attr =
     Pat (Ch CHR ''<'')
       (litI tag @ [Star (NotIn False ''>'')] @ litI attr @
        [Star Sp, One (Ch CHR ''=''), Star Sp, One (In False [dquote, squote]),
         Star (NotIn False [dquote, squote])] @ litI ''http'' @
        [Star (NotIn False [dquote, squote]), One (In False [dquote, squote]),
         Star (NotIn False ''>''), One (Ch CHR ''>'')])"

definition xfaUrlPatterns :: "pattern list" where
  "xfaUrlPatterns =
     [xfaUrlPattern ''submit'' ''target'', xfaUrlPattern ''submit'' ''href'',
      xfaUrlPattern ''xdp:submit'' ''target'', xfaUrlPattern ''xdp:submit'' ''href'']"

text \<open>The pattern of the inner \<^verbatim>\<open>replace\<close>: \<^verbatim>\<open>/https?:\/\/[^\s"'>]+/gi\<close>\<close>

definition tagUrlPattern :: pattern where
  "tagUrlPattern =
     Pat (ChI CHR ''h'')
       (litI ''ttp'' @ [Opt (ChI CHR ''s'')] @ lit ''://'' @
        plus (NotIn True [dquote, squote, CHR ''>'']))"

text \<open>
  \<^verbatim>\<open>/<submit[\s\S]*?>/gi\<close>, \<^verbatim>\<open>/<\/submit>/gi\<close>, \<^verbatim>\<open>/<xdp:submit[\s\S]*?>/gi\<close>,
  \<^verbatim>\<open>/<\/xdp:submit>/gi\<close>
\<close>

definition submitTagPatterns :: "pattern list" where
  "submitTagPatterns =
     [Pat (Ch CHR ''<'') (litI ''submit'' @ [Lazy AnyCh, One (Ch CHR ''>'')]),
      Pat (Ch CHR ''<'') (litI ''/submit>''),
      Pat (Ch CHR ''<'') (litI ''xdp:submit'' @ [Lazy AnyCh, One (Ch CHR ''>'')]),
      Pat (Ch CHR ''<'') (litI ''/xdp:submit>'')]"

text \<open>\<^verbatim>\<open>/<\?xml-stylesheet[^>]*href\s*=\s*["'][^"']*["'][^>]*\?>/gi\<close>\<close>

definition stylesheetPattern :: pattern where
  "stylesheetPattern =
     Pat (Ch CHR ''<'')
       (litI ''?xml-stylesheet'' @ [Star (NotIn False ''>'')] @ litI ''href'' @
        [Star Sp, One (Ch CHR ''=''), Star Sp, One (In False [dquote, squote]),
         Star (NotIn False [dquote, squote]), One (In False [dquote, squote]),
         Star (NotIn False ''>'')] @ lit ''?>'')"

text \<open>
  \<^verbatim>\<open>new RegExp(`(\\/S\\s+)${actionType.replace('/', '\\/')}`, 'g')\<close>: for the action types of
  the worker, \<^verbatim>\<open>/S\<close>, white space, and the type itself.
\<close>

definition actionPattern :: "string \<Rightarrow> pattern" where
  "actionPattern actionType = Pat (Ch CHR ''/'') (lit ''S'' @ plus Sp @ lit actionType)"

text \<open>\<^verbatim>\<open>/\/JS\s*\([^)]*\)[\s\r\n]*/gi\<close>\<close>

definition jsPattern :: pattern where
  "jsPattern =
     Pat (Ch CHR ''/'')
       (litI ''JS'' @ [Star Sp, One (Ch CHR ''(''), Star (NotIn False '')''), One (Ch CHR '')''),
                       Star (In True [CR, LF])])"

text \<open>\<^verbatim>\<open>/\\\\+https?:\/\/[^\s"'>]+/gi\<close>: a backslash, one or more backslashes, and a URL.\<close>

definition uncUrlPattern :: pattern where
  "uncUrlPattern =
     Pat (Ch backslash)
       (plus (Ch backslash) @ litI ''http'' @ [Opt (ChI CHR ''s'')] @ lit ''://'' @
        plus (NotIn True [dquote, squote, CHR ''>'']))"

text \<open>\<^verbatim>\<open>/https?:\/\/[^\s"'>\)]+/gi\<close>\<close>

definition urlPattern :: pattern where
  "urlPattern =
     Pat (ChI CHR ''h'')
       (litI ''ttp'' @ [Opt (ChI CHR ''s'')] @ lit ''://'' @
        plus (NotIn True [dquote, squote, CHR ''>'', CHR '')'']))"

text \<open>\<^verbatim>\<open>/\/AcroForm\s*<<[^>]*>>/g\<close>\<close>

definition acroFormPattern :: pattern where
  "acroFormPattern =
     Pat (Ch CHR ''/'')
       (lit ''AcroForm'' @ [Star Sp] @ lit ''<<'' @ [Star (NotIn False ''>'')] @ lit ''>>'')"


subsection \<open>The steps of \<^verbatim>\<open>cleanPDFBytes\<close>\<close>

text \<open>
  Step 5 writes \<^verbatim>\<open>prefix + '/Next '\<close>, where \<^verbatim>\<open>prefix = match[1]\<close> is the group
  \<^verbatim>\<open>(\/S\s+)\<close>: all of the match but the action type that ends it.
\<close>

definition actionText :: "string \<Rightarrow> string \<Rightarrow> string" where
  "actionText actionType m =
     (let prefix = take (length m - length actionType) m;
          replacement = prefix @ ''/Next ''
      in paddedText replacement m)"

text \<open>\<^verbatim>\<open>`Neutralized ${actionType.replace('/', '')} action (byte-level)`\<close>\<close>

definition actionLabel :: "string \<Rightarrow> string" where
  "actionLabel actionType =
     ''Neutralized '' @ remove1 CHR ''/'' actionType @ '' action (byte-level)''"

definition actionTypes :: "CleaningOptions \<Rightarrow> string list" where
  "actionTypes options =
     (if removeLinks options
      then [''/URI'', ''/Launch'', ''/GoToR'', ''/GoToE'', ''/SubmitForm'', ''/ImportData'',
            ''/JavaScript'']
      else [''/JavaScript''])"

definition neutralizeActions ::
  "string list \<Rightarrow> string \<Rightarrow> StreamRange list \<Rightarrow> work \<Rightarrow> work" where
  "neutralizeActions types pdfStr ranges w =
     fold (\<lambda>actionType. rewriteRule (actionPattern actionType) (actionText actionType)
                           (actionLabel actionType) pdfStr ranges) types w"

text \<open>The rewrite of an XFA submit tag: every URL in it becomes the padded \<^verbatim>\<open>about:blank\<close>.\<close>

definition cleanedTag :: "string \<Rightarrow> string" where
  "cleanedTag m = jsReplace tagUrlPattern padUrl m"

definition removeXfa :: "string \<Rightarrow> StreamRange list \<Rightarrow> work \<Rightarrow> work" where
  "removeXfa pdfStr ranges w =
     (let w1 = rewriteRule xfaPattern blankText ''Removed XFA form reference (byte-level)''
                 pdfStr ranges w;
          w2 = fold (\<lambda>p. rewriteRule p cleanedTag ''Removed XFA URL (byte-level)'' pdfStr ranges)
                 xfaUrlPatterns w1;
          w3 = fold (\<lambda>p. rewriteRule p blankText ''Removed XDP submit tag (byte-level)''
                            pdfStr ranges)
                 submitTagPatterns w2
      in rewriteRule stylesheetPattern blankText ''Removed XML stylesheet (byte-level)''
           pdfStr ranges w3)"

text \<open>
  Step 7, which \<^verbatim>\<open>cleanPDF\<close> repeats on the saved bytes: the state is the buffer and
  \<^verbatim>\<open>urlCount\<close>. A URL with \<^verbatim>\<open>xmlns=\<close> or \<^verbatim>\<open>xmlns:\<close> in the 30 characters before it is
  skipped by \<^verbatim>\<open>continue\<close>.
\<close>

definition uncStep :: "string \<Rightarrow> StreamRange list \<Rightarrow> nat \<times> nat \<Rightarrow> bytes \<times> nat \<Rightarrow> bytes \<times> nat" where
  "uncStep pdfStr ranges m st =
     (case m of (idx, n) \<Rightarrow>
        if \<not> isProtected idx ranges
        then (writeAt (fst st) idx (blankText (matchText pdfStr idx n)), snd st + 1)
        else st)"

definition urlStep :: "string \<Rightarrow> StreamRange list \<Rightarrow> nat \<times> nat \<Rightarrow> bytes \<times> nat \<Rightarrow> bytes \<times> nat" where
  "urlStep pdfStr ranges m st =
     (case m of (idx, n) \<Rightarrow>
        if \<not> isProtected idx ranges
        then (let url = matchText pdfStr idx n;
                  beforeUrl = substring pdfStr (idx - 30) idx
              in if includesStr beforeUrl ''xmlns='' \<or> includesStr beforeUrl ''xmlns:''
                 then st
                 else (writeAt (fst st) idx (padUrl url), snd st + 1))
        else st)"

definition removeUrls :: "string \<Rightarrow> StreamRange list \<Rightarrow> bytes \<Rightarrow> bytes \<times> nat" where
  "removeUrls pdfStr ranges buf =
     fold (urlStep pdfStr ranges) (execAll urlPattern pdfStr 0)
       (fold (uncStep pdfStr ranges) (execAll uncUrlPattern pdfStr 0) (buf, 0))"

definition removeUrlsBytes :: "string \<Rightarrow> StreamRange list \<Rightarrow> work \<Rightarrow> work" where
  "removeUrlsBytes pdfStr ranges w =
     (case removeUrls pdfStr ranges (cleaned w) of (buf, urlCount) \<Rightarrow>
        \<lparr>cleaned = buf,
         itemsRemoved =
           (if urlCount > 0
            then itemsRemoved w @ [''Removed '' @ decimal urlCount @ '' external URLs (byte-level)'']
            else itemsRemoved w)\<rparr>)"

text \<open>A step under \<^verbatim>\<open>if (c) { ... }\<close>.\<close>

definition onlyIf :: "bool \<Rightarrow> ('a \<Rightarrow> 'a) \<Rightarrow> 'a \<Rightarrow> 'a" where
  "onlyIf c f w = (if c then f w else w)"

text \<open>
  \<^verbatim>\<open>cleanPDFBytes\<close>. Every pattern runs on \<^verbatim>\<open>pdfStr\<close>, the string of the bytes as they came
  in; the writes go to the copy. \<^verbatim>\<open>warnings\<close> stays empty, so the warning is
  \<^verbatim>\<open>undefined\<close>.
\<close>

definition cleanPDFBytes :: "bytes \<Rightarrow> CleaningOptions \<Rightarrow> bytesResult" where
  "cleanPDFBytes pdfBytes options =
     (let protectedRanges = findProtectedStreams pdfBytes;
          pdfStr = bytesToString pdfBytes;
          w0 = \<lparr>cleaned = pdfBytes, itemsRemoved = []\<rparr>;
          w1 = rewriteRule openActionPattern blankText ''Removed OpenAction (byte-level)''
                 pdfStr protectedRanges w0;
          w2 = onlyIf (removeJavascript options \<or> removeLinks options)
                 (rewriteRule aaPattern blankText ''Removed Additional Actions (byte-level)''
                    pdfStr protectedRanges) w1;
          w3 = onlyIf (removeJavascript options)
                 (rewriteRule namesJsPattern namesText
                    ''Removed JavaScript name tree (byte-level)'' pdfStr protectedRanges) w2;
          w4 = onlyIf (removeForms options) (removeXfa pdfStr protectedRanges) w3;
          w5 = neutralizeActions (actionTypes options) pdfStr protectedRanges w4;
          w6 = onlyIf (removeJavascript options)
                 (rewriteRule jsPattern (paddedText ''/JS()'')
                    ''Removed JavaScript code (byte-level)'' pdfStr protectedRanges) w5;
          w7 = onlyIf (removeLinks options) (removeUrlsBytes pdfStr protectedRanges) w6;
          w8 = onlyIf (removeForms options)
                 (rewriteRule acroFormPattern blankText ''Removed AcroForm (byte-level)''
                    pdfStr protectedRanges) w7
      in \<lparr>cleaned = cleaned w8, itemsRemoved = itemsRemoved w8, warning = None\<rparr>)"

section \<open>Length preservation\<close>

lemma writeAt_length [simp]: "length (writeAt buf idx vs) = length buf"
  by (induction vs arbitrary: buf idx) simp_all

lemma ruleStep_length [simp]:
  "length (cleaned (ruleStep repl label pdfStr ranges m w)) = length (cleaned w)"
  by (cases m) (simp add: ruleStep_def)

lemma fold_ruleStep_length:
  "length (cleaned (fold (ruleStep repl label pdfStr ranges) ms w)) = length (cleaned w)"
  by (induction ms arbitrary: w) simp_all

lemma rewriteRule_length [simp]:
  "length (cleaned (rewriteRule p repl label pdfStr ranges w)) = length (cleaned w)"
  by (simp add: rewriteRule_def fold_ruleStep_length)

lemma fold_rewriteRule_length:
  "length (cleaned (fold (\<lambda>p. rewriteRule p repl label pdfStr ranges) ps w)) = length (cleaned w)"
  by (induction ps arbitrary: w) simp_all

lemma neutralizeActions_length [simp]:
  "length (cleaned (neutralizeActions types pdfStr ranges w)) = length (cleaned w)"
  unfolding neutralizeActions_def
  by (induction types arbitrary: w) simp_all

lemma removeXfa_length [simp]:
  "length (cleaned (removeXfa pdfStr ranges w)) = length (cleaned w)"
  by (simp add: removeXfa_def Let_def fold_rewriteRule_length)

lemma uncStep_length [simp]:
  "length (fst (uncStep pdfStr ranges m st)) = length (fst st)"
  by (cases m) (simp add: uncStep_def)

lemma urlStep_length [simp]:
  "length (fst (urlStep pdfStr ranges m st)) = length (fst st)"
  by (cases m) (simp add: urlStep_def Let_def)

lemma fold_uncStep_length:
  "length (fst (fold (uncStep pdfStr ranges) ms st)) = length (fst st)"
  by (induction ms arbitrary: st) simp_all

lemma fold_urlStep_length:
  "length (fst (fold (urlStep pdfStr ranges) ms st)) = length (fst st)"
  by (induction ms arbitrary: st) simp_all

lemma removeUrls_length [simp]:
  "length (fst (removeUrls pdfStr ranges buf)) = length buf"
  by (simp add: removeUrls_def fold_uncStep_length fold_urlStep_length)

lemma removeUrlsBytes_length [simp]:
  "length (cleaned (removeUrlsBytes pdfStr ranges w)) = length (cleaned w)"
proof -
  obtain buf urlCount where r: "removeUrls pdfStr ranges (cleaned w) = (buf, urlCount)"
    by (cases "removeUrls pdfStr ranges (cleaned w)")
  have "length (fst (removeUrls pdfStr ranges (cleaned w))) = length (cleaned w)" by simp
  with r show ?thesis by (simp add: removeUrlsBytes_def)
qed

lemma onlyIf_length:
  "(\<And>w. length (cleaned (f w)) = length (cleaned w)) \<Longrightarrow>
   length (cleaned (onlyIf c f w)) = length (cleaned w)"
  by (simp add: onlyIf_def)

lemma cleanPDFBytes_same_length:
  "length (cleaned (cleanPDFBytes b options)) = length b"
  by (simp add: cleanPDFBytes_def Let_def onlyIf_length)


section \<open>The report and the writes\<close>

text \<open>
  \<open>grows w w'\<close>: the report of \<open>w'\<close> extends that of \<open>w\<close>, and if nothing was appended the
  buffer is the same. Every step of the cleaner is related to its input in this way, since
  each write comes with a descriptor (or with a count that yields one).
\<close>

definition grows :: "work \<Rightarrow> work \<Rightarrow> bool" where
  "grows w w' =
     (\<exists>ls. itemsRemoved w' = itemsRemoved w @ ls \<and> (ls = [] \<longrightarrow> cleaned w' = cleaned w))"

lemma grows_refl [simp]: "grows w w"
  by (simp add: grows_def)

lemma grows_trans: "grows w1 w2 \<Longrightarrow> grows w2 w3 \<Longrightarrow> grows w1 w3"
  unfolding grows_def by auto

lemma grows_ruleStep: "grows w (ruleStep repl label pdfStr ranges m w)"
  by (cases m) (simp add: ruleStep_def grows_def)

lemma grows_fold_ruleStep: "grows w (fold (ruleStep repl label pdfStr ranges) ms w)"
proof (induction ms arbitrary: w)
  case Nil
  show ?case by simp
next
  case (Cons m ms)
  have "grows w (ruleStep repl label pdfStr ranges m w)" by (rule grows_ruleStep)
  moreover have "grows (ruleStep repl label pdfStr ranges m w)
                   (fold (ruleStep repl label pdfStr ranges) ms
                      (ruleStep repl label pdfStr ranges m w))"
    by (rule Cons.IH)
  ultimately show ?case by (simp add: grows_trans)
qed

lemma grows_rewriteRule: "grows w (rewriteRule p repl label pdfStr ranges w)"
  by (simp add: rewriteRule_def grows_fold_ruleStep)

lemma grows_fold_rewriteRule:
  "grows w (fold (\<lambda>p. rewriteRule p repl label pdfStr ranges) ps w)"
proof (induction ps arbitrary: w)
  case Nil
  show ?case by simp
next
  case (Cons p ps)
  have "grows w (rewriteRule p repl label pdfStr ranges w)" by (rule grows_rewriteRule)
  from grows_trans [OF this Cons.IH] show ?case by simp
qed

lemma grows_neutralizeActions: "grows w (neutralizeActions types pdfStr ranges w)"
  unfolding neutralizeActions_def
proof (induction types arbitrary: w)
  case Nil
  show ?case by simp
next
  case (Cons t ts)
  have "grows w (rewriteRule (actionPattern t) (actionText t) (actionLabel t) pdfStr ranges w)"
    by (rule grows_rewriteRule)
  from grows_trans [OF this Cons.IH] show ?case by simp
qed

lemma grows_removeXfa: "grows w (removeXfa pdfStr ranges w)"
proof -
  let ?w1 = "rewriteRule xfaPattern blankText ''Removed XFA form reference (byte-level)''
               pdfStr ranges w"
  let ?w2 = "fold (\<lambda>p. rewriteRule p cleanedTag ''Removed XFA URL (byte-level)'' pdfStr ranges)
               xfaUrlPatterns ?w1"
  let ?w3 = "fold (\<lambda>p. rewriteRule p blankText ''Removed XDP submit tag (byte-level)''
                          pdfStr ranges)
               submitTagPatterns ?w2"
  have g1: "grows w ?w1" by (rule grows_rewriteRule)
  have g2: "grows ?w1 ?w2" by (rule grows_fold_rewriteRule)
  have g3: "grows ?w2 ?w3" by (rule grows_fold_rewriteRule)
  have g4: "grows ?w3 (rewriteRule stylesheetPattern blankText
                         ''Removed XML stylesheet (byte-level)'' pdfStr ranges ?w3)"
    by (rule grows_rewriteRule)
  from grows_trans [OF grows_trans [OF grows_trans [OF g1 g2] g3] g4]
  show ?thesis by (simp add: removeXfa_def Let_def)
qed

text \<open>In step 7 the count is zero only as long as the buffer is untouched.\<close>

lemma fold_uncStep_count:
  "snd (fold (uncStep pdfStr ranges) ms st) \<ge> snd st \<and>
   (snd (fold (uncStep pdfStr ranges) ms st) = snd st \<longrightarrow>
      fst (fold (uncStep pdfStr ranges) ms st) = fst st)"
proof (induction ms arbitrary: st)
  case Nil
  show ?case by simp
next
  case (Cons m ms)
  obtain idx n where m: "m = (idx, n)" by (cases m)
  show ?case
  proof (cases "isProtected idx ranges")
    case True
    with m Cons.IH [of st] show ?thesis by (simp add: uncStep_def)
  next
    case False
    with m Cons.IH [of "(writeAt (fst st) idx (blankText (matchText pdfStr idx n)), snd st + 1)"]
    show ?thesis by (simp add: uncStep_def)
  qed
qed

lemma fold_urlStep_count:
  "snd (fold (urlStep pdfStr ranges) ms st) \<ge> snd st \<and>
   (snd (fold (urlStep pdfStr ranges) ms st) = snd st \<longrightarrow>
      fst (fold (urlStep pdfStr ranges) ms st) = fst st)"
proof (induction ms arbitrary: st)
  case Nil
  show ?case by simp
next
  case (Cons m ms)
  obtain idx n where m: "m = (idx, n)" by (cases m)
  show ?case
  proof (cases "urlStep pdfStr ranges m st = st")
    case True
    with Cons.IH [of st] show ?thesis by simp
  next
    case False
    with m have "urlStep pdfStr ranges m st =
                   (writeAt (fst st) idx (padUrl (matchText pdfStr idx n)), snd st + 1)"
      by (simp add: urlStep_def Let_def split: if_splits)
    with Cons.IH [of "(writeAt (fst st) idx (padUrl (matchText pdfStr idx n)), snd st + 1)"]
    show ?thesis by simp
  qed
qed

lemma removeUrls_count:
  "snd (removeUrls pdfStr ranges buf) = 0 \<Longrightarrow> fst (removeUrls pdfStr ranges buf) = buf"
proof -
  let ?u = "fold (uncStep pdfStr ranges) (execAll uncUrlPattern pdfStr 0) (buf, 0)"
  assume z: "snd (removeUrls pdfStr ranges buf) = 0"
  from fold_urlStep_count [of ?u pdfStr ranges "execAll urlPattern pdfStr 0"] z
  have u0: "snd ?u = 0" and same: "fst (removeUrls pdfStr ranges buf) = fst ?u"
    by (simp_all add: removeUrls_def)
  from fold_uncStep_count [of "(buf, 0)" pdfStr ranges "execAll uncUrlPattern pdfStr 0"] u0
  have "fst ?u = buf" by simp
  with same show ?thesis by simp
qed

lemma grows_removeUrlsBytes: "grows w (removeUrlsBytes pdfStr ranges w)"
proof -
  obtain buf urlCount where r: "removeUrls pdfStr ranges (cleaned w) = (buf, urlCount)"
    by (cases "removeUrls pdfStr ranges (cleaned w)")
  show ?thesis
  proof (cases "urlCount = 0")
    case True
    with r removeUrls_count [of pdfStr ranges "cleaned w"] have "buf = cleaned w" by simp
    with r True show ?thesis by (simp add: removeUrlsBytes_def grows_def)
  next
    case False
    with r show ?thesis by (simp add: removeUrlsBytes_def grows_def)
  qed
qed

text \<open>
  A run of \<^verbatim>\<open>cleanPDFBytes\<close> that reports nothing has written nothing.
\<close>

lemma grows_onlyIf: "(\<And>w. grows w (f w)) \<Longrightarrow> grows w (onlyIf c f w)"
  by (simp add: onlyIf_def)

lemma cleanPDFBytes_grows:
  "grows \<lparr>cleaned = b, itemsRemoved = []\<rparr>
     \<lparr>cleaned = cleaned (cleanPDFBytes b options),
      itemsRemoved = itemsRemoved (cleanPDFBytes b options)\<rparr>"
proof -
  define rs where "rs = findProtectedStreams b"
  define s where "s = bytesToString b"
  define w0 where "w0 = \<lparr>cleaned = b, itemsRemoved = []\<rparr>"
  define w1 where
    "w1 = rewriteRule openActionPattern blankText ''Removed OpenAction (byte-level)'' s rs w0"
  define w2 where
    "w2 = onlyIf (removeJavascript options \<or> removeLinks options)
            (rewriteRule aaPattern blankText ''Removed Additional Actions (byte-level)'' s rs) w1"
  define w3 where
    "w3 = onlyIf (removeJavascript options)
            (rewriteRule namesJsPattern namesText
               ''Removed JavaScript name tree (byte-level)'' s rs) w2"
  define w4 where "w4 = onlyIf (removeForms options) (removeXfa s rs) w3"
  define w5 where "w5 = neutralizeActions (actionTypes options) s rs w4"
  define w6 where
    "w6 = onlyIf (removeJavascript options)
            (rewriteRule jsPattern (paddedText ''/JS()'')
               ''Removed JavaScript code (byte-level)'' s rs) w5"
  define w7 where "w7 = onlyIf (removeLinks options) (removeUrlsBytes s rs) w6"
  define w8 where
    "w8 = onlyIf (removeForms options)
            (rewriteRule acroFormPattern blankText ''Removed AcroForm (byte-level)'' s rs) w7"
  have g1: "grows w0 w1" unfolding w1_def by (rule grows_rewriteRule)
  have g2: "grows w1 w2" unfolding w2_def by (rule grows_onlyIf) (rule grows_rewriteRule)
  have g3: "grows w2 w3" unfolding w3_def by (rule grows_onlyIf) (rule grows_rewriteRule)
  have g4: "grows w3 w4" unfolding w4_def by (rule grows_onlyIf) (rule grows_removeXfa)
  have g5: "grows w4 w5" unfolding w5_def by (rule grows_neutralizeActions)
  have g6: "grows w5 w6" unfolding w6_def by (rule grows_onlyIf) (rule grows_rewriteRule)
  have g7: "grows w6 w7" unfolding w7_def by (rule grows_onlyIf) (rule grows_removeUrlsBytes)
  have g8: "grows w7 w8" unfolding w8_def by (rule grows_onlyIf) (rule grows_rewriteRule)
  note g12 = grows_trans [OF g1 g2]
  note g13 = grows_trans [OF g12 g3]
  note g14 = grows_trans [OF g13 g4]
  note g15 = grows_trans [OF g14 g5]
  note g16 = grows_trans [OF g15 g6]
  note g17 = grows_trans [OF g16 g7]
  note g = grows_trans [OF g17 g8]
  have r: "cleanPDFBytes b options =
             \<lparr>cleaned = cleaned w8, itemsRemoved = itemsRemoved w8, warning = None\<rparr>"
    unfolding cleanPDFBytes_def Let_def w8_def w7_def w6_def w5_def w4_def w3_def w2_def w1_def
      w0_def s_def rs_def ..
  from g show ?thesis unfolding r w0_def by (simp add: grows_def)
qed

lemma cleanPDFBytes_silent:
  "itemsRemoved (cleanPDFBytes b options) = [] \<Longrightarrow> cleaned (cleanPDFBytes b options) = b"
  using cleanPDFBytes_grows [of b options] by (simp add: grows_def)


section \<open>The options\<close>

definition allFalse :: CleaningOptions where
  "allFalse = \<lparr>removeLinks = False, removeForms = False, removeJavascript = False\<rparr>"

definition allTrue :: CleaningOptions where
  "allTrue = \<lparr>removeLinks = True, removeForms = True, removeJavascript = True\<rparr>"

definition linksOnly :: CleaningOptions where
  "linksOnly = \<lparr>removeLinks = True, removeForms = False, removeJavascript = False\<rparr>"

definition javascriptOnly :: CleaningOptions where
  "javascriptOnly = \<lparr>removeLinks = False, removeForms = False, removeJavascript = True\<rparr>"

lemma fold_ruleStep_protected:
  "list_all (\<lambda>(idx, n). isProtected idx ranges) ms \<Longrightarrow>
   fold (ruleStep repl label pdfStr ranges) ms w = w"
  by (induction ms arbitrary: w) (auto simp: ruleStep_def)

lemma rewriteRule_protected:
  "list_all (\<lambda>(idx, n). isProtected idx ranges) (execAll p pdfStr 0) \<Longrightarrow>
   rewriteRule p repl label pdfStr ranges w = w"
  by (simp add: rewriteRule_def fold_ruleStep_protected)

text \<open>
  C3, as stated, fails: the OpenAction rule is not under any option, and with
  \<^verbatim>\<open>removeLinks\<close> false the action types to neutralize are still \<^verbatim>\<open>['/JavaScript']\<close>.
\<close>

theorem all_false_still_rewrites:
  "itemsRemoved (cleanPDFBytes ''<< /OpenAction 5 0 R /S /JavaScript >>'' allFalse) =
     [''Removed OpenAction (byte-level)'', ''Neutralized JavaScript action (byte-level)''] \<and>
   cleaned (cleanPDFBytes ''<< /OpenAction 5 0 R /S /JavaScript >>'' allFalse) =
     ''<<                   /S /Next       >>''"
  by code_simp

text \<open>
  C3, amended: with all three options false the byte-level cleaner applies the OpenAction
  rule and the neutralization of \<^verbatim>\<open>/S /JavaScript\<close>, and nothing else; when every match of
  these two patterns starts in a protected range (in particular when there is none), the
  report is empty and the output is the input.
\<close>

theorem all_false_clean_input:
  assumes "\<not> removeLinks options" and "\<not> removeForms options" and "\<not> removeJavascript options"
    and "list_all (\<lambda>(idx, n). isProtected idx (findProtectedStreams b))
           (execAll openActionPattern (bytesToString b) 0)"
    and "list_all (\<lambda>(idx, n). isProtected idx (findProtectedStreams b))
           (execAll (actionPattern ''/JavaScript'') (bytesToString b) 0)"
  shows "itemsRemoved (cleanPDFBytes b options) = [] \<and> cleaned (cleanPDFBytes b options) = b"
  using assms
  by (simp add: cleanPDFBytes_def Let_def onlyIf_def actionTypes_def neutralizeActions_def
      rewriteRule_protected)

theorem all_false_clean_input_witness:
  "itemsRemoved (cleanPDFBytes ''<< /AA << /O 7 0 R >> /URI (http://a.example) >>'' allFalse) = [] \<and>
   cleaned (cleanPDFBytes ''<< /AA << /O 7 0 R >> /URI (http://a.example) >>'' allFalse) =
     ''<< /AA << /O 7 0 R >> /URI (http://a.example) >>''"
proof -
  let ?b = "''<< /AA << /O 7 0 R >> /URI (http://a.example) >>''"
  have o: "\<not> removeLinks allFalse" "\<not> removeForms allFalse" "\<not> removeJavascript allFalse"
    by (simp_all add: allFalse_def)
  have m1: "list_all (\<lambda>(idx, n). isProtected idx (findProtectedStreams ?b))
              (execAll openActionPattern (bytesToString ?b) 0)"
    by code_simp
  have m2: "list_all (\<lambda>(idx, n). isProtected idx (findProtectedStreams ?b))
              (execAll (actionPattern ''/JavaScript'') (bytesToString ?b) 0)"
    by code_simp
  from all_false_clean_input [OF o m1 m2] show ?thesis .
qed

text \<open>
  C6. The property: every unprotected \<^verbatim>\<open>/S\<close> followed by an action type of the active set
  is rewritten to \<^verbatim>\<open>/S /Next\<close> padded with spaces to the length of the match. For
  \<^verbatim>\<open>/S /URI\<close> the code does not do so: the replacement \<^verbatim>\<open>prefix + '/Next '\<close> is cut to the
  length of the match, and \<^verbatim>\<open>/URI\<close> is one character shorter than \<^verbatim>\<open>/Next\<close>, so the span
  reads \<^verbatim>\<open>/S /Nex\<close>.
\<close>

theorem uri_action_truncated:
  "cleaned (cleanPDFBytes ''<< /Type /Action /S /URI /URI (x) >>'' linksOnly) =
     ''<< /Type /Action /S /Nex /URI (x) >>''"
  by code_simp


section \<open>Where a match lies\<close>

text \<open>
  \<open>minLen r\<close> is the least number of characters a match of \<open>r\<close> consumes. A match lies
  within the string, the matches that an \<^verbatim>\<open>exec\<close> loop visits follow one another without
  overlap, and every text a rule writes has the length of its match.
\<close>

function minLen :: "item list \<Rightarrow> nat" where
  "minLen [] = 0"
| "minLen (One a # r) = Suc (minLen r)"
| "minLen (Star a # r) = minLen r"
| "minLen (Lazy a # r) = minLen r"
| "minLen (Opt a # r) = minLen r"
| "minLen (Alt p q # r) = min (minLen (p @ r)) (minLen (q @ r))"
  by pat_completeness auto
termination
  by (relation "measure (size_list size)") auto

definition patMin :: "pattern \<Rightarrow> nat" where
  "patMin p = (case p of Pat a r \<Rightarrow> Suc (minLen r))"

lemma matchItems_bounds:
  "matchItems r s = Some n \<Longrightarrow> minLen r \<le> n \<and> n \<le> length s"
proof (induction r s arbitrary: n rule: matchItems.induct)
  case (1 s)
  then show ?case by simp
next
  case (2 a r)
  then show ?case by simp
next
  case (3 a r x xs)
  then show ?case by (auto split: if_splits)
next
  case (4 a r)
  then show ?case by simp
next
  case (5 a r x xs)
  then show ?case by (fastforce split: if_splits option.splits)
next
  case (6 a r)
  then show ?case by simp
next
  case (7 a r x xs)
  then show ?case by (fastforce split: if_splits option.splits)
next
  case (8 a r)
  then show ?case by simp
next
  case (9 a r x xs)
  then show ?case by (fastforce split: if_splits option.splits)
next
  case (10 p q r s)
  then show ?case by (fastforce split: option.splits)
qed

lemma matchHere_bounds:
  "matchHere p s = Some n \<Longrightarrow> patMin p \<le> n \<and> n \<le> length s"
  by (cases p; cases s) (auto simp: patMin_def split: if_splits dest: matchItems_bounds)

lemma findFrom_end:
  "findFrom p s pos = Some (idx, n) \<Longrightarrow> idx + n \<le> pos + length s \<and> patMin p \<le> n"
proof (induction s arbitrary: pos)
  case Nil
  then show ?case by simp
next
  case (Cons x xs)
  show ?case
  proof (cases "matchHere p (x # xs)")
    case None
    with Cons.prems have "findFrom p xs (Suc pos) = Some (idx, n)" by simp
    from Cons.IH [OF this] show ?thesis by simp
  next
    case (Some k)
    with Cons.prems have "idx = pos" "n = k" by simp_all
    with Some matchHere_bounds [of p "x # xs" k] show ?thesis by simp
  qed
qed

lemma exec_end:
  "exec p s i = Some (idx, n) \<Longrightarrow> idx + n \<le> length s \<and> patMin p \<le> n"
proof -
  assume a: "exec p s i = Some (idx, n)"
  then have f: "findFrom p (drop i s) i = Some (idx, n)" by (simp add: exec_def)
  from exec_bounds [OF a] have "i < length s" by simp
  with findFrom_end [OF f] show ?thesis by simp
qed

lemma execAll_bounds:
  "(idx, n) \<in> set (execAll p s i) \<Longrightarrow>
   i \<le> idx \<and> idx + n \<le> length s \<and> 0 < n \<and> patMin p \<le> n"
proof (induction p s i rule: execAll.induct)
  case (1 p s i)
  show ?case
  proof (cases "exec p s i")
    case None
    with "1.prems" show ?thesis by (simp add: execAll.simps [of p s i])
  next
    case (Some m)
    obtain idx0 n0 where m: "m = (idx0, n0)" by (cases m)
    from Some m "1.prems" have mem: "(idx, n) = (idx0, n0) \<or> (idx, n) \<in> set (execAll p s (idx0 + n0))"
      by (simp add: execAll.simps [of p s i])
    from Some m have e: "exec p s i = Some (idx0, n0)" by simp
    from mem show ?thesis
    proof
      assume "(idx, n) = (idx0, n0)"
      with exec_bounds [OF e] exec_end [OF e] show ?thesis by simp
    next
      assume "(idx, n) \<in> set (execAll p s (idx0 + n0))"
      from "1.IH" [OF Some m [symmetric] this] exec_bounds [OF e] show ?thesis by simp
    qed
  qed
qed

lemma execAll_disjoint:
  "(a, n) \<in> set (execAll p s i) \<Longrightarrow> (b, k) \<in> set (execAll p s i) \<Longrightarrow>
   (a, n) = (b, k) \<or> a + n \<le> b \<or> b + k \<le> a"
proof (induction p s i rule: execAll.induct)
  case (1 p s i)
  show ?case
  proof (cases "exec p s i")
    case None
    with "1.prems" show ?thesis by (simp add: execAll.simps [of p s i])
  next
    case (Some m)
    obtain idx0 n0 where m: "m = (idx0, n0)" by (cases m)
    let ?rest = "execAll p s (idx0 + n0)"
    from Some m have unf: "execAll p s i = (idx0, n0) # ?rest"
      by (simp add: execAll.simps [of p s i])
    have later: "\<And>c l. (c, l) \<in> set ?rest \<Longrightarrow> idx0 + n0 \<le> c"
      using execAll_bounds by blast
    from "1.prems" unf have ma: "(a, n) = (idx0, n0) \<or> (a, n) \<in> set ?rest"
      and mb: "(b, k) = (idx0, n0) \<or> (b, k) \<in> set ?rest" by simp_all
    from ma mb show ?thesis
    proof (elim disjE)
      assume "(a, n) = (idx0, n0)" "(b, k) = (idx0, n0)"
      then show ?thesis by simp
    next
      assume "(a, n) = (idx0, n0)" "(b, k) \<in> set ?rest"
      with later [of b k] show ?thesis by simp
    next
      assume "(a, n) \<in> set ?rest" "(b, k) = (idx0, n0)"
      with later [of a n] show ?thesis by simp
    next
      assume "(a, n) \<in> set ?rest" "(b, k) \<in> set ?rest"
      from "1.IH" [OF Some m [symmetric] this] show ?thesis .
    qed
  qed
qed

lemma matchText_length: "idx + n \<le> length s \<Longrightarrow> length (matchText s idx n) = n"
  by (simp add: matchText_def)

lemma padUrl_length [simp]: "length (padUrl url) = length url"
  by (simp add: padUrl_def substring_def)

lemma replaceMatches_length:
  assumes "\<And>m. length (f m) = length m"
  shows "i \<le> length s \<Longrightarrow> length (replaceMatches s i (execAll p s i) f) = length s - i"
proof (induction p s i rule: execAll.induct)
  case (1 p s i)
  show ?case
  proof (cases "exec p s i")
    case None
    then show ?thesis by (simp add: execAll.simps [of p s i])
  next
    case (Some m)
    obtain idx n where m: "m = (idx, n)" by (cases m)
    from Some m have e: "exec p s i = Some (idx, n)" by simp
    from exec_bounds [OF e] exec_end [OF e]
    have b: "i \<le> idx" "idx + n \<le> length s" by simp_all
    from "1.IH" [OF Some m [symmetric]] b
    have ih: "length (replaceMatches s (idx + n) (execAll p s (idx + n)) f) = length s - (idx + n)"
      by simp
    have "length (substring s i idx) = idx - i" using b by (simp add: substring_def)
    with ih b assms e show ?thesis
      by (simp add: execAll.simps [of p s i] matchText_length)
  qed
qed

lemma cleanedTag_length [simp]: "length (cleanedTag m) = length m"
  using replaceMatches_length [of padUrl 0 m tagUrlPattern]
  by (simp add: cleanedTag_def jsReplace_def)

lemma blankText_length [simp]: "length (blankText m) = length m"
  by (simp add: blankText_def)

lemma paddedText_length [simp]: "length (paddedText r m) = length m"
  by (simp add: paddedText_def)

lemma actionText_length [simp]: "length (actionText t m) = length m"
  by (simp add: actionText_def Let_def)

lemma patMin_namesJs: "patMin namesJsPattern = 23"
  by code_simp



section \<open>The bytes a rule leaves alone\<close>

text \<open>
  \<open>covers m i\<close>: the offset \<open>i\<close> lies in the span of the match \<open>m\<close>. \<open>applied p s ranges\<close>
  are the matches of \<open>p\<close> that pass the test \<^verbatim>\<open>!isProtected(match.index, protectedRanges)\<close>.
  \<open>xmlnsBefore s idx\<close> is the test of the URL rule on the 30 characters before \<open>idx\<close>.
\<close>

definition covers :: "nat \<times> nat \<Rightarrow> nat \<Rightarrow> bool" where
  "covers m i = (case m of (idx, n) \<Rightarrow> idx \<le> i \<and> i < idx + n)"

definition applied :: "pattern \<Rightarrow> string \<Rightarrow> StreamRange list \<Rightarrow> (nat \<times> nat) list" where
  "applied p pdfStr ranges = filter (\<lambda>(idx, n). \<not> isProtected idx ranges) (execAll p pdfStr 0)"

definition xmlnsBefore :: "string \<Rightarrow> nat \<Rightarrow> bool" where
  "xmlnsBefore pdfStr idx =
     (let beforeUrl = substring pdfStr (idx - 30) idx
      in includesStr beforeUrl ''xmlns='' \<or> includesStr beforeUrl ''xmlns:'')"

lemma writeAt_frame:
  "\<not> (idx \<le> i \<and> i < idx + length vs) \<Longrightarrow> writeAt buf idx vs ! i = buf ! i"
proof (induction vs arbitrary: buf idx)
  case Nil
  show ?case by simp
next
  case (Cons v vs)
  from Cons.prems have "\<not> (Suc idx \<le> i \<and> i < Suc idx + length vs)" and ne: "i \<noteq> idx"
    by auto
  from Cons.IH [OF this(1)] ne show ?case by simp
qed

lemma fold_ruleStep_frame:
  assumes "\<And>idx n. (idx, n) \<in> set ms \<Longrightarrow> length (repl (matchText pdfStr idx n)) \<le> n"
    and "\<not> list_ex (\<lambda>m. covers m i) (filter (\<lambda>(idx, n). \<not> isProtected idx ranges) ms)"
  shows "cleaned (fold (ruleStep repl label pdfStr ranges) ms w) ! i = cleaned w ! i"
  using assms
proof (induction ms arbitrary: w)
  case Nil
  show ?case by simp
next
  case (Cons m ms)
  obtain idx n where m: "m = (idx, n)" by (cases m)
  have len: "length (repl (matchText pdfStr idx n)) \<le> n" using Cons.prems(1) m by simp
  have step: "cleaned (ruleStep repl label pdfStr ranges m w) ! i = cleaned w ! i"
  proof (cases "isProtected idx ranges")
    case True
    with m show ?thesis by (simp add: ruleStep_def)
  next
    case False
    with Cons.prems(2) m have "\<not> (idx \<le> i \<and> i < idx + n)" by (simp add: covers_def)
    with len have "\<not> (idx \<le> i \<and> i < idx + length (repl (matchText pdfStr idx n)))" by auto
    from writeAt_frame [OF this] False m show ?thesis by (simp add: ruleStep_def)
  qed
  have rest: "\<not> list_ex (\<lambda>m. covers m i) (filter (\<lambda>(idx, n). \<not> isProtected idx ranges) ms)"
    using Cons.prems(2) by (auto simp: list_ex_iff)
  have "cleaned (fold (ruleStep repl label pdfStr ranges) ms (ruleStep repl label pdfStr ranges m w)) ! i
          = cleaned (ruleStep repl label pdfStr ranges m w) ! i"
    using Cons.IH [OF _ rest] Cons.prems(1) by simp
  with step show ?case by simp
qed

lemma rewriteRule_frame:
  assumes "\<And>m. length (repl m) \<le> length m"
    and "\<not> list_ex (\<lambda>m. covers m i) (applied p pdfStr ranges)"
  shows "cleaned (rewriteRule p repl label pdfStr ranges w) ! i = cleaned w ! i"
proof -
  have "\<And>idx n. length (repl (matchText pdfStr idx n)) \<le> n"
  proof -
    fix idx n
    have "length (repl (matchText pdfStr idx n)) \<le> length (matchText pdfStr idx n)"
      by (rule assms(1))
    also have "\<dots> \<le> n" by (simp add: matchText_def)
    finally show "length (repl (matchText pdfStr idx n)) \<le> n" .
  qed
  with assms(2) show ?thesis
    unfolding rewriteRule_def applied_def by (intro fold_ruleStep_frame) simp_all
qed

lemma namesRule_frame:
  assumes "\<not> list_ex (\<lambda>m. covers m i) (applied namesJsPattern pdfStr ranges)"
  shows "cleaned (rewriteRule namesJsPattern namesText label pdfStr ranges w) ! i = cleaned w ! i"
proof -
  have "\<And>idx n. (idx, n) \<in> set (execAll namesJsPattern pdfStr 0) \<Longrightarrow>
          length (namesText (matchText pdfStr idx n)) \<le> n"
  proof -
    fix idx n
    assume "(idx, n) \<in> set (execAll namesJsPattern pdfStr 0)"
    from execAll_bounds [OF this] patMin_namesJs
    have "idx + n \<le> length pdfStr" "23 \<le> n" by simp_all
    then show "length (namesText (matchText pdfStr idx n)) \<le> n"
      by (simp add: namesText_def matchText_length)
  qed
  with assms show ?thesis
    unfolding rewriteRule_def applied_def by (intro fold_ruleStep_frame) simp_all
qed

lemma fold_rewriteRule_frame:
  assumes "\<And>m. length (repl m) \<le> length m"
    and "\<not> list_ex (\<lambda>m. covers m i) (concat (map (\<lambda>p. applied p pdfStr ranges) ps))"
  shows "cleaned (fold (\<lambda>p. rewriteRule p repl label pdfStr ranges) ps w) ! i = cleaned w ! i"
  using assms(2)
proof (induction ps arbitrary: w)
  case Nil
  show ?case by simp
next
  case (Cons p ps)
  from Cons.prems have a: "\<not> list_ex (\<lambda>m. covers m i) (applied p pdfStr ranges)"
    and b: "\<not> list_ex (\<lambda>m. covers m i) (concat (map (\<lambda>p. applied p pdfStr ranges) ps))"
    by (auto simp: list_ex_iff)
  from Cons.IH [OF b] rewriteRule_frame [OF assms(1) a] show ?case by simp
qed

lemma neutralizeActions_frame:
  assumes "\<not> list_ex (\<lambda>m. covers m i)
             (concat (map (\<lambda>t. applied (actionPattern t) pdfStr ranges) types))"
  shows "cleaned (neutralizeActions types pdfStr ranges w) ! i = cleaned w ! i"
  using assms unfolding neutralizeActions_def
proof (induction types arbitrary: w)
  case Nil
  show ?case by simp
next
  case (Cons t ts)
  from Cons.prems have a: "\<not> list_ex (\<lambda>m. covers m i) (applied (actionPattern t) pdfStr ranges)"
    and b: "\<not> list_ex (\<lambda>m. covers m i)
               (concat (map (\<lambda>t. applied (actionPattern t) pdfStr ranges) ts))"
    by (auto simp: list_ex_iff)
  have "\<And>m. length (actionText t m) \<le> length m" by simp
  from Cons.IH [OF b] rewriteRule_frame [OF this a] show ?case by simp
qed


text \<open>
  The spans that \<^verbatim>\<open>cleanPDFBytes\<close> writes: \<open>ruleRewrites\<close> for all rules but the plain URL
  rule, in the order of the steps, and \<open>urlRewrites\<close> for the plain URL rule, which leaves out
  the matches with \<^verbatim>\<open>xmlns=\<close> or \<^verbatim>\<open>xmlns:\<close> before them.
\<close>

definition xfaRewrites :: "string \<Rightarrow> StreamRange list \<Rightarrow> (nat \<times> nat) list" where
  "xfaRewrites pdfStr ranges =
     applied xfaPattern pdfStr ranges @
     concat (map (\<lambda>p. applied p pdfStr ranges) xfaUrlPatterns) @
     concat (map (\<lambda>p. applied p pdfStr ranges) submitTagPatterns) @
     applied stylesheetPattern pdfStr ranges"

definition ruleRewrites :: "bytes \<Rightarrow> CleaningOptions \<Rightarrow> (nat \<times> nat) list" where
  "ruleRewrites pdfBytes options =
     (let ranges = findProtectedStreams pdfBytes;
          pdfStr = bytesToString pdfBytes
      in applied openActionPattern pdfStr ranges @
         (if removeJavascript options \<or> removeLinks options
          then applied aaPattern pdfStr ranges else []) @
         (if removeJavascript options then applied namesJsPattern pdfStr ranges else []) @
         (if removeForms options then xfaRewrites pdfStr ranges else []) @
         concat (map (\<lambda>t. applied (actionPattern t) pdfStr ranges) (actionTypes options)) @
         (if removeJavascript options then applied jsPattern pdfStr ranges else []) @
         (if removeLinks options then applied uncUrlPattern pdfStr ranges else []) @
         (if removeForms options then applied acroFormPattern pdfStr ranges else []))"

definition urlRewrites :: "bytes \<Rightarrow> CleaningOptions \<Rightarrow> (nat \<times> nat) list" where
  "urlRewrites pdfBytes options =
     (if removeLinks options
      then filter (\<lambda>(idx, n). \<not> xmlnsBefore (bytesToString pdfBytes) idx)
             (applied urlPattern (bytesToString pdfBytes) (findProtectedStreams pdfBytes))
      else [])"

definition overlaps :: "nat \<times> nat \<Rightarrow> nat \<times> nat \<Rightarrow> bool" where
  "overlaps m m' = (case m of (a, n) \<Rightarrow> case m' of (b, k) \<Rightarrow> a < b + k \<and> b < a + n)"

lemma removeXfa_frame:
  assumes "\<not> list_ex (\<lambda>m. covers m i) (xfaRewrites pdfStr ranges)"
  shows "cleaned (removeXfa pdfStr ranges w) ! i = cleaned w ! i"
proof -
  from assms have a: "\<not> list_ex (\<lambda>m. covers m i) (applied xfaPattern pdfStr ranges)"
    and b: "\<not> list_ex (\<lambda>m. covers m i) (concat (map (\<lambda>p. applied p pdfStr ranges) xfaUrlPatterns))"
    and c: "\<not> list_ex (\<lambda>m. covers m i) (concat (map (\<lambda>p. applied p pdfStr ranges) submitTagPatterns))"
    and d: "\<not> list_ex (\<lambda>m. covers m i) (applied stylesheetPattern pdfStr ranges)"
    unfolding xfaRewrites_def by simp_all
  have bl: "\<And>m. length (blankText m) \<le> length m" by simp
  have ct: "\<And>m. length (cleanedTag m) \<le> length m" by simp
  show ?thesis
    unfolding removeXfa_def Let_def
    by (simp add: rewriteRule_frame [OF bl d] fold_rewriteRule_frame [OF bl c]
        fold_rewriteRule_frame [OF ct b] rewriteRule_frame [OF bl a])
qed

lemma fold_uncStep_frame:
  "\<not> list_ex (\<lambda>m. covers m i) (filter (\<lambda>(idx, n). \<not> isProtected idx ranges) ms) \<Longrightarrow>
   fst (fold (uncStep pdfStr ranges) ms st) ! i = fst st ! i"
proof (induction ms arbitrary: st)
  case Nil
  show ?case by simp
next
  case (Cons m ms)
  obtain idx n where m: "m = (idx, n)" by (cases m)
  have step: "fst (uncStep pdfStr ranges m st) ! i = fst st ! i"
  proof (cases "isProtected idx ranges")
    case True
    with m show ?thesis by (simp add: uncStep_def)
  next
    case False
    with Cons.prems m have "\<not> (idx \<le> i \<and> i < idx + n)" by (simp add: covers_def)
    moreover have "length (blankText (matchText pdfStr idx n)) \<le> n"
      by (simp add: matchText_def)
    ultimately have "\<not> (idx \<le> i \<and> i < idx + length (blankText (matchText pdfStr idx n)))"
      by auto
    from writeAt_frame [OF this] False m show ?thesis by (simp add: uncStep_def)
  qed
  have "\<not> list_ex (\<lambda>m. covers m i) (filter (\<lambda>(idx, n). \<not> isProtected idx ranges) ms)"
    using Cons.prems by (auto simp: list_ex_iff)
  from Cons.IH [OF this] step show ?case by simp
qed

lemma fold_urlStep_frame:
  "\<not> list_ex (\<lambda>m. covers m i)
       (filter (\<lambda>(idx, n). \<not> xmlnsBefore pdfStr idx)
          (filter (\<lambda>(idx, n). \<not> isProtected idx ranges) ms)) \<Longrightarrow>
   fst (fold (urlStep pdfStr ranges) ms st) ! i = fst st ! i"
proof (induction ms arbitrary: st)
  case Nil
  show ?case by simp
next
  case (Cons m ms)
  obtain idx n where m: "m = (idx, n)" by (cases m)
  have step: "fst (urlStep pdfStr ranges m st) ! i = fst st ! i"
  proof (cases "isProtected idx ranges \<or> xmlnsBefore pdfStr idx")
    case True
    with m show ?thesis by (auto simp: urlStep_def xmlnsBefore_def Let_def)
  next
    case False
    with Cons.prems m have "\<not> (idx \<le> i \<and> i < idx + n)" by (simp add: covers_def)
    moreover have "length (padUrl (matchText pdfStr idx n)) \<le> n"
      by (simp add: matchText_def)
    ultimately have "\<not> (idx \<le> i \<and> i < idx + length (padUrl (matchText pdfStr idx n)))"
      by auto
    from writeAt_frame [OF this] False m show ?thesis
      by (simp add: urlStep_def xmlnsBefore_def Let_def)
  qed
  have "\<not> list_ex (\<lambda>m. covers m i)
            (filter (\<lambda>(idx, n). \<not> xmlnsBefore pdfStr idx)
               (filter (\<lambda>(idx, n). \<not> isProtected idx ranges) ms))"
    using Cons.prems m by (auto simp: list_ex_iff split: if_splits)
  from Cons.IH [OF this] step show ?case by simp
qed

lemma removeUrlsBytes_frame:
  assumes "\<not> list_ex (\<lambda>m. covers m i) (applied uncUrlPattern pdfStr ranges)"
    and "\<not> list_ex (\<lambda>m. covers m i)
             (filter (\<lambda>(idx, n). \<not> xmlnsBefore pdfStr idx) (applied urlPattern pdfStr ranges))"
  shows "cleaned (removeUrlsBytes pdfStr ranges w) ! i = cleaned w ! i"
proof -
  have "fst (removeUrls pdfStr ranges (cleaned w)) ! i = cleaned w ! i"
    using assms unfolding removeUrls_def applied_def
    by (simp add: fold_urlStep_frame fold_uncStep_frame)
  then show ?thesis
    by (cases "removeUrls pdfStr ranges (cleaned w)") (simp add: removeUrlsBytes_def)
qed

lemma onlyIf_frame:
  "(c \<Longrightarrow> cleaned (f w) ! i = cleaned w ! i) \<Longrightarrow> cleaned (onlyIf c f w) ! i = cleaned w ! i"
  by (simp add: onlyIf_def)

text \<open>A byte outside every span written is the byte of the input.\<close>

lemma cleanPDFBytes_frame:
  assumes r: "\<not> list_ex (\<lambda>m. covers m i) (ruleRewrites b options)"
    and u: "\<not> list_ex (\<lambda>m. covers m i) (urlRewrites b options)"
  shows "cleaned (cleanPDFBytes b options) ! i = b ! i"
proof -
  define rs where "rs = findProtectedStreams b"
  define s where "s = bytesToString b"
  define w0 where "w0 = \<lparr>cleaned = b, itemsRemoved = []\<rparr>"
  define w1 where
    "w1 = rewriteRule openActionPattern blankText ''Removed OpenAction (byte-level)'' s rs w0"
  define w2 where
    "w2 = onlyIf (removeJavascript options \<or> removeLinks options)
            (rewriteRule aaPattern blankText ''Removed Additional Actions (byte-level)'' s rs) w1"
  define w3 where
    "w3 = onlyIf (removeJavascript options)
            (rewriteRule namesJsPattern namesText
               ''Removed JavaScript name tree (byte-level)'' s rs) w2"
  define w4 where "w4 = onlyIf (removeForms options) (removeXfa s rs) w3"
  define w5 where "w5 = neutralizeActions (actionTypes options) s rs w4"
  define w6 where
    "w6 = onlyIf (removeJavascript options)
            (rewriteRule jsPattern (paddedText ''/JS()'')
               ''Removed JavaScript code (byte-level)'' s rs) w5"
  define w7 where "w7 = onlyIf (removeLinks options) (removeUrlsBytes s rs) w6"
  define w8 where
    "w8 = onlyIf (removeForms options)
            (rewriteRule acroFormPattern blankText ''Removed AcroForm (byte-level)'' s rs) w7"
  have bl: "\<And>m. length (blankText m) \<le> length m" by simp
  have pd: "\<And>m. length (paddedText ''/JS()'' m) \<le> length m" by simp
  from r have a1: "\<not> list_ex (\<lambda>m. covers m i) (applied openActionPattern s rs)"
    and a2: "removeJavascript options \<or> removeLinks options \<Longrightarrow>
               \<not> list_ex (\<lambda>m. covers m i) (applied aaPattern s rs)"
    and a3: "removeJavascript options \<Longrightarrow>
               \<not> list_ex (\<lambda>m. covers m i) (applied namesJsPattern s rs)"
    and a4: "removeForms options \<Longrightarrow> \<not> list_ex (\<lambda>m. covers m i) (xfaRewrites s rs)"
    and a5: "\<not> list_ex (\<lambda>m. covers m i)
               (concat (map (\<lambda>t. applied (actionPattern t) s rs) (actionTypes options)))"
    and a6: "removeJavascript options \<Longrightarrow> \<not> list_ex (\<lambda>m. covers m i) (applied jsPattern s rs)"
    and a7: "removeLinks options \<Longrightarrow> \<not> list_ex (\<lambda>m. covers m i) (applied uncUrlPattern s rs)"
    and a8: "removeForms options \<Longrightarrow> \<not> list_ex (\<lambda>m. covers m i) (applied acroFormPattern s rs)"
    unfolding ruleRewrites_def Let_def s_def rs_def
    by (simp_all split: if_splits)
  from u have a7u: "removeLinks options \<Longrightarrow>
      \<not> list_ex (\<lambda>m. covers m i) (filter (\<lambda>(idx, n). \<not> xmlnsBefore s idx) (applied urlPattern s rs))"
    unfolding urlRewrites_def s_def rs_def by simp
  have f1: "cleaned w1 ! i = cleaned w0 ! i"
    unfolding w1_def by (rule rewriteRule_frame [OF bl a1])
  have f2: "cleaned w2 ! i = cleaned w1 ! i"
    unfolding w2_def by (rule onlyIf_frame) (rule rewriteRule_frame [OF bl a2])
  have f3: "cleaned w3 ! i = cleaned w2 ! i"
    unfolding w3_def by (rule onlyIf_frame) (rule namesRule_frame [OF a3])
  have f4: "cleaned w4 ! i = cleaned w3 ! i"
    unfolding w4_def by (rule onlyIf_frame) (rule removeXfa_frame [OF a4])
  have f5: "cleaned w5 ! i = cleaned w4 ! i"
    unfolding w5_def by (rule neutralizeActions_frame [OF a5])
  have f6: "cleaned w6 ! i = cleaned w5 ! i"
    unfolding w6_def by (rule onlyIf_frame) (rule rewriteRule_frame [OF pd a6])
  have f7: "cleaned w7 ! i = cleaned w6 ! i"
    unfolding w7_def by (rule onlyIf_frame) (rule removeUrlsBytes_frame [OF a7 a7u])
  have f8: "cleaned w8 ! i = cleaned w7 ! i"
    unfolding w8_def by (rule onlyIf_frame) (rule rewriteRule_frame [OF bl a8])
  have res: "cleanPDFBytes b options =
             \<lparr>cleaned = cleaned w8, itemsRemoved = itemsRemoved w8, warning = None\<rparr>"
    unfolding cleanPDFBytes_def Let_def w8_def w7_def w6_def w5_def w4_def w3_def w2_def w1_def
      w0_def s_def rs_def ..
  from f1 f2 f3 f4 f5 f6 f7 f8 show ?thesis unfolding res w0_def by simp
qed

text \<open>
  C4, as stated, fails: the rule for UNC paths has no \<^verbatim>\<open>xmlns\<close> test and blanks its whole
  match, so the URL in \<^verbatim>\<open><a xmlns="\\http://ns.example/x">\<close>, which has \<^verbatim>\<open>xmlns=\<close> right
  before it, is overwritten with spaces.
\<close>

theorem namespace_url_blanked_by_unc_rule:
  "matchText (''<a xmlns='' @ [dquote, backslash, backslash] @ ''http://ns.example/x'' @ [dquote] @ ''>'')
     12 19 = ''http://ns.example/x'' \<and>
   xmlnsBefore (''<a xmlns='' @ [dquote, backslash, backslash] @ ''http://ns.example/x'' @ [dquote] @ ''>'')
     12 \<and>
   matchText (cleaned (cleanPDFBytes
       (''<a xmlns='' @ [dquote, backslash, backslash] @ ''http://ns.example/x'' @ [dquote] @ ''>'')
       linksOnly)) 12 19 = ''                   ''"
  by code_simp

text \<open>
  C4, amended: a match of the URL pattern that has \<^verbatim>\<open>xmlns=\<close> or \<^verbatim>\<open>xmlns:\<close> in the 30 bytes
  before it is never rewritten by the URL rule, and it is byte-identical in the output
  whenever no span written by another rule (OpenAction, AA, Names, XFA, action types,
  JavaScript literal, UNC path, AcroForm) overlaps it.
\<close>

theorem namespace_url_kept:
  assumes m: "(idx, n) \<in> set (execAll urlPattern (bytesToString b) 0)"
    and x: "xmlnsBefore (bytesToString b) idx"
    and o: "\<not> list_ex (overlaps (idx, n)) (ruleRewrites b options)"
  shows "matchText (cleaned (cleanPDFBytes b options)) idx n = matchText b idx n"
proof -
  have same: "cleaned (cleanPDFBytes b options) ! i = b ! i" if i: "idx \<le> i" "i < idx + n" for i
  proof (rule cleanPDFBytes_frame)
    show "\<not> list_ex (\<lambda>m. covers m i) (ruleRewrites b options)"
    proof
      assume "list_ex (\<lambda>m. covers m i) (ruleRewrites b options)"
      then obtain c l where cl: "(c, l) \<in> set (ruleRewrites b options)" "covers (c, l) i"
        by (auto simp: list_ex_iff)
      from cl(2) i have "overlaps (idx, n) (c, l)" by (simp add: covers_def overlaps_def)
      with cl(1) o show False by (auto simp: list_ex_iff)
    qed
  next
    show "\<not> list_ex (\<lambda>m. covers m i) (urlRewrites b options)"
    proof
      assume "list_ex (\<lambda>m. covers m i) (urlRewrites b options)"
      then obtain c l where cl: "(c, l) \<in> set (urlRewrites b options)" "covers (c, l) i"
        by (auto simp: list_ex_iff)
      from cl(1) have mem: "(c, l) \<in> set (execAll urlPattern (bytesToString b) 0)"
        and nx: "\<not> xmlnsBefore (bytesToString b) c"
        by (auto simp: urlRewrites_def applied_def split: if_splits)
      from nx x have "idx \<noteq> c" by auto
      with execAll_disjoint [OF m mem] have "idx + n \<le> c \<or> c + l \<le> idx" by auto
      with cl(2) i show False by (simp add: covers_def)
    qed
  qed
  have len: "length (cleaned (cleanPDFBytes b options)) = length b"
    by (rule cleanPDFBytes_same_length)
  show ?thesis
    unfolding matchText_def
  proof (rule nth_equalityI)
    show "length (take n (drop idx (cleaned (cleanPDFBytes b options)))) = length (take n (drop idx b))"
      using len by simp
  next
    fix j
    assume "j < length (take n (drop idx (cleaned (cleanPDFBytes b options))))"
    with len have j: "j < n" "idx + j < length b" by auto
    with same [of "idx + j"] len show "take n (drop idx (cleaned (cleanPDFBytes b options))) ! j = take n (drop idx b) ! j"
      by simp
  qed
qed


theorem namespace_url_kept_witness:
  "(9, 36) \<in> set (execAll urlPattern (bytesToString
       (''xmlns:x='' @ [dquote] @ ''http://www.w3.org/1999/XSL/Transform'' @ [dquote] @
        '' (http://b.example/)'')) 0) \<and>
   xmlnsBefore (bytesToString
       (''xmlns:x='' @ [dquote] @ ''http://www.w3.org/1999/XSL/Transform'' @ [dquote] @
        '' (http://b.example/)'')) 9 \<and>
   \<not> list_ex (overlaps (9, 36)) (ruleRewrites
       (''xmlns:x='' @ [dquote] @ ''http://www.w3.org/1999/XSL/Transform'' @ [dquote] @
        '' (http://b.example/)'') linksOnly) \<and>
   matchText (cleaned (cleanPDFBytes
       (''xmlns:x='' @ [dquote] @ ''http://www.w3.org/1999/XSL/Transform'' @ [dquote] @
        '' (http://b.example/)'') linksOnly)) 9 36 = ''http://www.w3.org/1999/XSL/Transform''"
proof -
  let ?b = "''xmlns:x='' @ [dquote] @ ''http://www.w3.org/1999/XSL/Transform'' @ [dquote] @
            '' (http://b.example/)''"
  have m: "(9, 36) \<in> set (execAll urlPattern (bytesToString ?b) 0)" by code_simp
  have x: "xmlnsBefore (bytesToString ?b) 9" by code_simp
  have o: "\<not> list_ex (overlaps (9, 36)) (ruleRewrites ?b linksOnly)" by code_simp
  have t: "matchText ?b 9 36 = ''http://www.w3.org/1999/XSL/Transform''" by code_simp
  from namespace_url_kept [OF m x o] t m x o show ?thesis by simp
qed

text \<open>
  C2. The property: at every offset inside a Binary range (a range with no tag) the output
  has the byte of the input. The code tests only the offset where a match starts, so a
  match that starts outside a Binary range and runs into it is written in full: here the
  OpenAction rule, under any options, blanks the bytes \<^verbatim>\<open>BINARY\<close> of the range [33, 40).
\<close>

theorem binary_range_overwritten:
  "map (\<lambda>r. (start r, end' r, subtype r))
     (findProtectedStreams ''/OpenAction << /S /Launch stream\<newline>BINARY endstream >>'') =
     [(33, 40, None)] \<and>
   isProtected 33 (findProtectedStreams ''/OpenAction << /S /Launch stream\<newline>BINARY endstream >>'') \<and>
   ''/OpenAction << /S /Launch stream\<newline>BINARY endstream >>'' ! 33 = CHR ''B'' \<and>
   cleaned (cleanPDFBytes ''/OpenAction << /S /Launch stream\<newline>BINARY endstream >>'' allFalse) ! 33 =
     CHR '' ''"
  by code_simp

text \<open>
  C8. The property: the ranges returned by \<^verbatim>\<open>findProtectedStreams\<close> are pairwise disjoint,
  each from the first byte after a \<^verbatim>\<open>stream\<close> keyword's newline to its \<^verbatim>\<open>endstream\<close>. The
  pattern for the \<^verbatim>\<open>stream\<close> keyword also matches the end of \<^verbatim>\<open>endstream\<close> and its
  newline: in a file with two streams the text between them becomes a range of its own,
  [44, 85), which contains the range [82, 85) of the second stream.
\<close>

theorem stream_ranges_overlap:
  "map (\<lambda>r. (start r, end' r))
     (findProtectedStreams
        ''1 0 obj\<newline><< /Length 2 >>\<newline>stream\<newline>AB\<newline>endstream\<newline>endobj\<newline>2 0 obj\<newline><< /Length 2 >>\<newline>stream\<newline>CD\<newline>endstream\<newline>endobj\<newline>'') =
     [(31, 34), (44, 85), (82, 85)]"
  by code_simp


section \<open>What the report says\<close>

text \<open>
  Every unprotected match of a rule appends one descriptor (the URL rules share one, with
  a count), so the report is empty exactly when no rule was applied.
\<close>

lemma fold_ruleStep_items:
  "itemsRemoved (fold (ruleStep repl label pdfStr ranges) ms w) =
   itemsRemoved w @
     replicate (length (filter (\<lambda>(idx, n). \<not> isProtected idx ranges) ms)) label"
proof (induction ms arbitrary: w)
  case Nil
  show ?case by simp
next
  case (Cons m ms)
  obtain idx n where m: "m = (idx, n)" by (cases m)
  show ?case
  proof (cases "isProtected idx ranges")
    case True
    with m Cons.IH [of w] show ?thesis by (simp add: ruleStep_def)
  next
    case False
    with m Cons.IH [of "ruleStep repl label pdfStr ranges m w"] show ?thesis
      by (simp add: ruleStep_def replicate_append_same)
  qed
qed

lemma rewriteRule_items:
  "itemsRemoved (rewriteRule p repl label pdfStr ranges w) =
   itemsRemoved w @ replicate (length (applied p pdfStr ranges)) label"
  by (simp add: rewriteRule_def applied_def fold_ruleStep_items)

lemma rewriteRule_silent:
  "itemsRemoved (rewriteRule p repl label pdfStr ranges w) = [] \<longleftrightarrow>
   itemsRemoved w = [] \<and> applied p pdfStr ranges = []"
  by (simp add: rewriteRule_items)

lemma fold_rewriteRule_silent:
  "itemsRemoved (fold (\<lambda>p. rewriteRule p repl label pdfStr ranges) ps w) = [] \<longleftrightarrow>
   itemsRemoved w = [] \<and> concat (map (\<lambda>p. applied p pdfStr ranges) ps) = []"
  by (induction ps arbitrary: w) (auto simp: rewriteRule_silent)

lemma neutralizeActions_silent:
  "itemsRemoved (neutralizeActions types pdfStr ranges w) = [] \<longleftrightarrow>
   itemsRemoved w = [] \<and> concat (map (\<lambda>t. applied (actionPattern t) pdfStr ranges) types) = []"
  unfolding neutralizeActions_def
  by (induction types arbitrary: w) (auto simp: rewriteRule_silent)

lemma removeXfa_silent:
  "itemsRemoved (removeXfa pdfStr ranges w) = [] \<longleftrightarrow>
   itemsRemoved w = [] \<and> xfaRewrites pdfStr ranges = []"
  by (auto simp: removeXfa_def Let_def xfaRewrites_def rewriteRule_silent fold_rewriteRule_silent)

lemma fold_uncStep_snd:
  "snd (fold (uncStep pdfStr ranges) ms st) =
   snd st + length (filter (\<lambda>(idx, n). \<not> isProtected idx ranges) ms)"
proof (induction ms arbitrary: st)
  case Nil
  show ?case by simp
next
  case (Cons m ms)
  obtain idx n where m: "m = (idx, n)" by (cases m)
  from m Cons.IH [of "uncStep pdfStr ranges m st"] show ?case
    by (simp add: uncStep_def)
qed

lemma fold_urlStep_snd:
  "snd (fold (urlStep pdfStr ranges) ms st) =
   snd st + length (filter (\<lambda>(idx, n). \<not> xmlnsBefore pdfStr idx)
                      (filter (\<lambda>(idx, n). \<not> isProtected idx ranges) ms))"
proof (induction ms arbitrary: st)
  case Nil
  show ?case by simp
next
  case (Cons m ms)
  obtain idx n where m: "m = (idx, n)" by (cases m)
  from m Cons.IH [of "urlStep pdfStr ranges m st"] show ?case
    by (simp add: urlStep_def xmlnsBefore_def Let_def)
qed

lemma removeUrls_snd:
  "snd (removeUrls pdfStr ranges buf) =
   length (applied uncUrlPattern pdfStr ranges) +
   length (filter (\<lambda>(idx, n). \<not> xmlnsBefore pdfStr idx) (applied urlPattern pdfStr ranges))"
  by (simp add: removeUrls_def applied_def fold_urlStep_snd fold_uncStep_snd)

lemma removeUrlsBytes_silent:
  "itemsRemoved (removeUrlsBytes pdfStr ranges w) = [] \<longleftrightarrow>
   itemsRemoved w = [] \<and> applied uncUrlPattern pdfStr ranges = [] \<and>
   filter (\<lambda>(idx, n). \<not> xmlnsBefore pdfStr idx) (applied urlPattern pdfStr ranges) = []"
proof -
  obtain buf urlCount where r: "removeUrls pdfStr ranges (cleaned w) = (buf, urlCount)"
    by (cases "removeUrls pdfStr ranges (cleaned w)")
  with removeUrls_snd [of pdfStr ranges "cleaned w"]
  have "urlCount =
          length (applied uncUrlPattern pdfStr ranges) +
          length (filter (\<lambda>(idx, n). \<not> xmlnsBefore pdfStr idx) (applied urlPattern pdfStr ranges))"
    by simp
  with r show ?thesis by (auto simp: removeUrlsBytes_def)
qed

lemma cleanPDFBytes_silent_iff:
  "itemsRemoved (cleanPDFBytes b options) = [] \<longleftrightarrow>
   ruleRewrites b options = [] \<and> urlRewrites b options = []"
  unfolding cleanPDFBytes_def Let_def ruleRewrites_def urlRewrites_def
  by (simp add: onlyIf_def rewriteRule_silent removeXfa_silent neutralizeActions_silent
      removeUrlsBytes_silent) blast


text \<open>
  C10, as stated, fails: with \<^verbatim>\<open>removeJavascript\<close> the JavaScript rule matches \<^verbatim>\<open>/JS()\<close>,
  rewrites it to \<^verbatim>\<open>/JS()\<close> and reports a removal, though no byte of the output differs from
  the input.
\<close>

theorem report_entry_without_change:
  "itemsRemoved (cleanPDFBytes ''<< /S /Next /JS() >>'' javascriptOnly) =
     [''Removed JavaScript code (byte-level)''] \<and>
   cleaned (cleanPDFBytes ''<< /S /Next /JS() >>'' javascriptOnly) = ''<< /S /Next /JS() >>''"
  by code_simp

text \<open>
  C10, amended: on the byte-level path the report is empty exactly when no rule was applied
  at an unprotected match, and an empty report implies that the output equals the input.
  (A report entry stands for a rewrite that was applied; the rewrite may leave every byte
  as it was.)
\<close>

theorem empty_report_unchanged:
  "(itemsRemoved (cleanPDFBytes b options) = [] \<longleftrightarrow>
      ruleRewrites b options = [] \<and> urlRewrites b options = []) \<and>
   (itemsRemoved (cleanPDFBytes b options) = [] \<longrightarrow> cleaned (cleanPDFBytes b options) = b)"
  using cleanPDFBytes_silent_iff [of b options] cleanPDFBytes_silent [of b options] by blast

theorem empty_report_unchanged_witness:
  "itemsRemoved (cleanPDFBytes ''%PDF-1.4 << /Type /Catalog >>'' allTrue) = [] \<and>
   ruleRewrites ''%PDF-1.4 << /Type /Catalog >>'' allTrue = [] \<and>
   urlRewrites ''%PDF-1.4 << /Type /Catalog >>'' allTrue = [] \<and>
   cleaned (cleanPDFBytes ''%PDF-1.4 << /Type /Catalog >>'' allTrue) =
     ''%PDF-1.4 << /Type /Catalog >>''"
proof -
  have h: "itemsRemoved (cleanPDFBytes ''%PDF-1.4 << /Type /Catalog >>'' allTrue) = []"
    by code_simp
  from h empty_report_unchanged [of "''%PDF-1.4 << /Type /Catalog >>''" allTrue]
  show ?thesis by blast
qed


section \<open>A second pass\<close>




















section \<open>The structural cleaner\<close>

text \<open>
  The objects of the parsed document, as far as \<^verbatim>\<open>cleanPDF\<close> tells them apart: names,
  indirect references (object and generation number), dictionaries (keys without the
  slash, in the order of their entries), arrays, and everything else. The parser library is
  not part of the repository: what it loads, what it saves and how it prints an object
  (\<^verbatim>\<open>toString\<close>) are parameters.
\<close>

datatype PDFObject =
    PDFName string
  | PDFRef nat nat
  | PDFDict "(string \<times> PDFObject) list"
  | PDFArray "PDFObject list"
  | PDFOther string

type_synonym dict = "(string \<times> PDFObject) list"

definition dictGet :: "dict \<Rightarrow> string \<Rightarrow> PDFObject option" where
  "dictGet d k = map_of d k"

definition dictDelete :: "dict \<Rightarrow> string \<Rightarrow> dict" where
  "dictDelete d k = filter (\<lambda>e. fst e \<noteq> k) d"

definition dictSet :: "dict \<Rightarrow> string \<Rightarrow> PDFObject \<Rightarrow> dict" where
  "dictSet d k v =
     (if map_of d k = None then d @ [(k, v)]
      else map (\<lambda>e. if fst e = k then (k, v) else e) d)"

text \<open>
  \<^verbatim>\<open>isPDFRef\<close> tests that the value is an object with a property \<^verbatim>\<open>tag\<close> equal to
  \<^verbatim>\<open>'PDFRef'\<close>. Of the objects here only a reference has that property; the library sets
  it, so the tag of a reference is a parameter, \<open>tag\<close>.
\<close>

fun isPDFRef :: "(nat \<Rightarrow> nat \<Rightarrow> string) \<Rightarrow> PDFObject option \<Rightarrow> bool" where
  "isPDFRef tag (Some (PDFRef n g)) = (tag n g = ''PDFRef'')"
| "isPDFRef tag v = False"

fun isPDFDict :: "PDFObject option \<Rightarrow> bool" where
  "isPDFDict (Some (PDFDict d)) = True"
| "isPDFDict v = False"

fun isPDFArray :: "PDFObject option \<Rightarrow> bool" where
  "isPDFArray (Some (PDFArray xs)) = True"
| "isPDFArray v = False"

text \<open>
  The context of a document: its indirect objects and the largest object number in use.
  \<^verbatim>\<open>context.allocate\<close> is a call into the library, which is not part of the repository:
  it returns a reference with a changed context, or throws. It is a parameter, \<open>alloc\<close>.
\<close>

record PDFContext =
  indirectObjects :: "((nat \<times> nat) \<times> PDFObject) list"
  largestObjectNumber :: nat

fun safeLookup :: "PDFContext \<Rightarrow> PDFObject \<Rightarrow> PDFObject option" where
  "safeLookup ctx (PDFRef n g) = map_of (indirectObjects ctx) (n, g)"
| "safeLookup ctx v = Some v"

type_synonym allocator = "PDFContext \<Rightarrow> PDFObject \<Rightarrow> string + PDFObject \<times> PDFContext"

record PDFDocument =
  catalog :: dict
  pages :: "string + dict list"
  pdfContext :: PDFContext

text \<open>\<^verbatim>\<open>x?.toString()\<close> of a dictionary entry that may be absent.\<close>

definition nameOf :: "(PDFObject \<Rightarrow> string) \<Rightarrow> PDFObject option \<Rightarrow> string option" where
  "nameOf toStr v = map_option toStr v"

definition externalTypes :: "string list" where
  "externalTypes = [''/URI'', ''/Launch'', ''/GoToR'', ''/GoToE'', ''/SubmitForm'', ''/ImportData'']"

subsection \<open>The catalog\<close>

text \<open>Step 1: \<^verbatim>\<open>/OpenAction\<close>.\<close>

definition openActionShouldRemove ::
  "(nat \<Rightarrow> nat \<Rightarrow> string) \<Rightarrow> (PDFObject \<Rightarrow> string) \<Rightarrow> CleaningOptions \<Rightarrow> PDFObject \<Rightarrow> bool" where
  "openActionShouldRemove tag toStr options openAction =
     (if isPDFDict (Some openAction)
      then (case openAction of
              PDFDict d \<Rightarrow>
                (case nameOf toStr (dictGet d ''S'') of
                   None \<Rightarrow> False
                 | Some sName \<Rightarrow>
                     sName \<noteq> [] \<and>
                     ((removeJavascript options \<and> sName = ''/JavaScript'') \<or>
                      (removeLinks options \<and> List.member externalTypes sName)))
            | _ \<Rightarrow> False)
      else if isPDFRef tag (Some openAction)
      then removeJavascript options \<or> removeLinks options
      else False)"

definition removeOpenAction ::
  "(nat \<Rightarrow> nat \<Rightarrow> string) \<Rightarrow> (PDFObject \<Rightarrow> string) \<Rightarrow> CleaningOptions \<Rightarrow> dict \<times> string list \<Rightarrow> dict \<times> string list" where
  "removeOpenAction tag toStr options st =
     (case dictGet (fst st) ''OpenAction'' of
        None \<Rightarrow> st
      | Some openAction \<Rightarrow>
          if openActionShouldRemove tag toStr options openAction
          then (dictDelete (fst st) ''OpenAction'', snd st @ [''Removed OpenAction''])
          else st)"

text \<open>Steps 2 and 4, and the \<^verbatim>\<open>/AA\<close> of a page: delete the key if it is there.\<close>

definition removeKey :: "string \<Rightarrow> string \<Rightarrow> dict \<times> string list \<Rightarrow> dict \<times> string list" where
  "removeKey k label st =
     (case dictGet (fst st) k of
        None \<Rightarrow> st
      | Some v \<Rightarrow> (dictDelete (fst st) k, snd st @ [label]))"

text \<open>Step 3: the \<^verbatim>\<open>/JavaScript\<close> entry of a \<^verbatim>\<open>/Names\<close> that is a dictionary.\<close>

definition removeNamesJavaScript :: "dict \<times> string list \<Rightarrow> dict \<times> string list" where
  "removeNamesJavaScript st =
     (case dictGet (fst st) ''Names'' of
        Some (PDFDict names) \<Rightarrow>
          (case dictGet names ''JavaScript'' of
             None \<Rightarrow> st
           | Some js \<Rightarrow>
               (dictSet (fst st) ''Names'' (PDFDict (dictDelete names ''JavaScript'')),
                snd st @ [''Removed JavaScript name tree'']))
      | _ \<Rightarrow> st)"

definition cleanCatalog ::
  "(nat \<Rightarrow> nat \<Rightarrow> string) \<Rightarrow> (PDFObject \<Rightarrow> string) \<Rightarrow> CleaningOptions \<Rightarrow> dict \<times> string list \<Rightarrow> dict \<times> string list" where
  "cleanCatalog tag toStr options st =
     (let s1 = removeOpenAction tag toStr options st;
          s2 = removeKey ''AA'' ''Removed document Additional Actions'' s1;
          s3 = onlyIf (removeJavascript options) removeNamesJavaScript s2
      in onlyIf (removeForms options) (removeKey ''AcroForm'' ''Removed AcroForm'') s3)"

subsection \<open>The annotations of a page\<close>

record annotState =
  newAnnots :: "PDFObject list"
  annotItems :: "string list"
  annotContext :: PDFContext

text \<open>
  The test of a link's action in the array branch: the \<^verbatim>\<open>/A\<close> entry itself must be a
  dictionary (a reference is not looked up).
\<close>

definition isExternal :: "(PDFObject \<Rightarrow> string) \<Rightarrow> PDFObject \<Rightarrow> bool" where
  "isExternal toStr action =
     (case action of
        PDFDict a \<Rightarrow>
          (let sName = nameOf toStr (dictGet a ''S'')
           in if List.member externalTypes (case sName of None \<Rightarrow> [] | Some n \<Rightarrow> n) then True
              else if sName = Some ''/GoTo''
              then (case dictGet a ''D'' of
                      None \<Rightarrow> False
                    | Some d \<Rightarrow>
                        (let dStr = toStr d
                         in includesStr dStr ''http://'' \<or> includesStr dStr ''https://'' \<or>
                            includesStr dStr ''ftp://''))
              else False)
      | _ \<Rightarrow> False)"

text \<open>
  One pass of the loop over an \<^verbatim>\<open>/Annots\<close> array. An exception of \<^verbatim>\<open>context.allocate\<close> is
  caught by the \<^verbatim>\<open>try\<close> around the pass: nothing is pushed to the new array.
\<close>

definition cleanAnnotation ::
  "(nat \<Rightarrow> nat \<Rightarrow> string) \<Rightarrow> (PDFObject \<Rightarrow> string) \<Rightarrow> allocator
     \<Rightarrow> CleaningOptions \<Rightarrow> PDFObject \<Rightarrow> annotState \<Rightarrow> annotState" where
  "cleanAnnotation tag toStr alloc options annotRef st =
     (case (if isPDFRef tag (Some annotRef) then safeLookup (annotContext st) annotRef
            else Some annotRef) of
        Some (PDFDict annot) \<Rightarrow>
          (let subtypeName = nameOf toStr (dictGet annot ''Subtype'');
               linkExternal =
                 (removeLinks options \<and> subtypeName = Some ''/Link'' \<and>
                  (case dictGet annot ''A'' of
                     None \<Rightarrow> False
                   | Some action \<Rightarrow> isExternal toStr action));
               items1 = (if linkExternal
                         then annotItems st @ [''Removed external link annotation'']
                         else annotItems st);
               widget = (removeForms options \<and> subtypeName = Some ''/Widget'');
               items2 = (if widget then items1 @ [''Removed form widget annotation'']
                         else items1);
               shouldRemove = (linkExternal \<or> widget)
           in if shouldRemove then st\<lparr>annotItems := items2\<rparr>
              else if isPDFRef tag (Some annotRef)
              then st\<lparr>newAnnots := newAnnots st @ [annotRef], annotItems := items2\<rparr>
              else (case alloc (annotContext st) (PDFDict annot) of
                      Inl message \<Rightarrow> st\<lparr>annotItems := items2\<rparr>
                    | Inr (ref, ctx') \<Rightarrow>
                        st\<lparr>newAnnots := newAnnots st @ [ref], annotItems := items2,
                           annotContext := ctx'\<rparr>))
      | _ \<Rightarrow> st)"

text \<open>The branch for an \<^verbatim>\<open>/Annots\<close> entry that is one reference.\<close>

definition cleanSingleAnnotation ::
  "(nat \<Rightarrow> nat \<Rightarrow> string) \<Rightarrow> (PDFObject \<Rightarrow> string) \<Rightarrow> CleaningOptions \<Rightarrow> PDFObject \<Rightarrow> annotState \<Rightarrow> annotState" where
  "cleanSingleAnnotation tag toStr options annots st =
     (case safeLookup (annotContext st) annots of
        Some (PDFDict annot) \<Rightarrow>
          (let subtypeName = nameOf toStr (dictGet annot ''Subtype'');
               link = (removeLinks options \<and> subtypeName = Some ''/Link'');
               items1 = (if link then annotItems st @ [''Removed link annotation'']
                         else annotItems st);
               widget = (removeForms options \<and> subtypeName = Some ''/Widget'');
               items2 = (if widget then items1 @ [''Removed form widget annotation'']
                         else items1);
               shouldRemove = (link \<or> widget)
           in if shouldRemove then st\<lparr>annotItems := items2\<rparr>
              else st\<lparr>newAnnots := newAnnots st @ [annots], annotItems := items2\<rparr>)
      | _ \<Rightarrow> st)"

text \<open>
  The annotations of one page: if the page has an \<^verbatim>\<open>/Annots\<close> entry, a new array is
  filled from it and stored under \<^verbatim>\<open>/Annots\<close>.
\<close>

definition cleanAnnots ::
  "(nat \<Rightarrow> nat \<Rightarrow> string) \<Rightarrow> (PDFObject \<Rightarrow> string) \<Rightarrow> allocator
     \<Rightarrow> CleaningOptions \<Rightarrow> dict \<Rightarrow> string list \<times> PDFContext
     \<Rightarrow> dict \<times> string list \<times> PDFContext" where
  "cleanAnnots tag toStr alloc options page st =
     (case dictGet page ''Annots'' of
        None \<Rightarrow> (page, st)
      | Some annots \<Rightarrow>
          (let st0 = \<lparr>newAnnots = [], annotItems = fst st, annotContext = snd st\<rparr>;
               st1 = (if isPDFArray (Some annots)
                      then (case annots of
                              PDFArray xs \<Rightarrow> fold (cleanAnnotation tag toStr alloc options) xs st0
                            | _ \<Rightarrow> st0)
                      else if isPDFRef tag (Some annots)
                      then cleanSingleAnnotation tag toStr options annots st0
                      else st0)
           in (dictSet page ''Annots'' (PDFArray (newAnnots st1)),
               annotItems st1, annotContext st1)))"

definition cleanPage ::
  "(nat \<Rightarrow> nat \<Rightarrow> string) \<Rightarrow> (PDFObject \<Rightarrow> string) \<Rightarrow> allocator
     \<Rightarrow> CleaningOptions \<Rightarrow> dict \<Rightarrow> string list \<times> PDFContext
     \<Rightarrow> dict \<times> string list \<times> PDFContext" where
  "cleanPage tag toStr alloc options page st =
     (case removeKey ''AA'' ''Removed page Additional Actions'' (page, fst st) of
        (page1, items1) \<Rightarrow> cleanAnnots tag toStr alloc options page1 (items1, snd st))"

fun cleanPages ::
  "(nat \<Rightarrow> nat \<Rightarrow> string) \<Rightarrow> (PDFObject \<Rightarrow> string) \<Rightarrow> allocator
     \<Rightarrow> CleaningOptions \<Rightarrow> dict list \<Rightarrow> string list \<times> PDFContext
     \<Rightarrow> dict list \<times> string list \<times> PDFContext" where
  "cleanPages tag toStr alloc options [] st = ([], st)"
| "cleanPages tag toStr alloc options (page # rest) st =
     (case cleanPage tag toStr alloc options page st of
        (page', st') \<Rightarrow>
          (case cleanPages tag toStr alloc options rest st' of
             (rest', st'') \<Rightarrow> (page' # rest', st'')))"


subsection \<open>\<^verbatim>\<open>cleanPDF\<close>\<close>

text \<open>
  The parser library: \<^verbatim>\<open>PDFDocument.load\<close> and \<^verbatim>\<open>pdfDoc.save\<close> either throw (\<open>Inl\<close> of the
  message) or return, \<^verbatim>\<open>toString\<close> prints an object, \<open>refTag\<close> is the \<^verbatim>\<open>tag\<close> property of
  a reference, and \<open>allocate\<close> is \<^verbatim>\<open>context.allocate\<close>.
\<close>

record PDFLib =
  loadPDF :: "bytes \<Rightarrow> string + PDFDocument"
  savePDF :: "PDFDocument \<Rightarrow> string + bytes"
  toString :: "PDFObject \<Rightarrow> string"
  refTag :: "nat \<Rightarrow> nat \<Rightarrow> string"
  allocate :: allocator

record CleanResult =
  blob :: bytes
  itemsRemoved' :: "string list"
  warning' :: "string option"

fun joinWith :: "string \<Rightarrow> string list \<Rightarrow> string" where
  "joinWith sep [] = []"
| "joinWith sep [x] = x"
| "joinWith sep (x # y # ys) = x @ sep @ joinWith sep (y # ys)"

text \<open>
  Step 5: \<^verbatim>\<open>getPages\<close> may throw, which leaves the pages as they are and gives a warning.
\<close>

definition cleanAllPages ::
  "(nat \<Rightarrow> nat \<Rightarrow> string) \<Rightarrow> (PDFObject \<Rightarrow> string) \<Rightarrow> allocator
     \<Rightarrow> CleaningOptions \<Rightarrow> PDFDocument \<Rightarrow> string list
     \<Rightarrow> PDFDocument \<times> string list \<times> string list" where
  "cleanAllPages tag toStr alloc options pdfDoc items =
     (case pages pdfDoc of
        Inl message \<Rightarrow> (pdfDoc, items, [''Could not process all pages: '' @ message])
      | Inr ps \<Rightarrow>
          (case cleanPages tag toStr alloc options ps (items, pdfContext pdfDoc) of
             (ps', items', ctx') \<Rightarrow>
               (pdfDoc\<lparr>pages := Inr ps', pdfContext := ctx'\<rparr>, items', [])))"

text \<open>Step 7: the URL sweep over the saved bytes; they are replaced only if a URL was found.\<close>

definition finalUrlCleanup :: "bytes \<Rightarrow> string list \<Rightarrow> bytes \<times> string list" where
  "finalUrlCleanup savedPdfBytes items =
     (let protectedRanges = findProtectedStreams savedPdfBytes;
          pdfStr = bytesToString savedPdfBytes
      in case removeUrls pdfStr protectedRanges savedPdfBytes of
           (buf, urlCount) \<Rightarrow>
             if urlCount > 0
             then (buf, items @ [''Removed '' @ decimal urlCount @ '' external URLs from final PDF''])
             else (savedPdfBytes, items))"

text \<open>The \<^verbatim>\<open>try\<close> block of \<^verbatim>\<open>cleanPDF\<close>: \<open>Inl\<close> is an exception that reaches its \<^verbatim>\<open>catch\<close>.\<close>

definition structuralPass :: "PDFLib \<Rightarrow> bytes \<Rightarrow> CleaningOptions \<Rightarrow> string + CleanResult" where
  "structuralPass lib pdfBytes options =
     (case loadPDF lib pdfBytes of
        Inl message \<Rightarrow> Inl message
      | Inr pdfDoc \<Rightarrow>
          (case cleanCatalog (refTag lib) (toString lib) options (catalog pdfDoc, []) of
             (catalog', items1) \<Rightarrow>
               (case cleanAllPages (refTag lib) (toString lib) (allocate lib) options
                       (pdfDoc\<lparr>catalog := catalog'\<rparr>) items1 of
                  (pdfDoc', items2, warnings) \<Rightarrow>
                    (case savePDF lib pdfDoc' of
                       Inl message \<Rightarrow> Inl message
                     | Inr savedPdfBytes \<Rightarrow>
                         (case (if removeLinks options
                                then finalUrlCleanup savedPdfBytes items2
                                else (savedPdfBytes, items2)) of
                            (final, items3) \<Rightarrow>
                              Inr \<lparr>blob = final, itemsRemoved' = items3,
                                   warning' = (if warnings \<noteq> []
                                               then Some (joinWith ''; '' warnings)
                                               else None)\<rparr>)))))"

text \<open>
  \<^verbatim>\<open>cleanPDF\<close>: the structural pass, and in its \<^verbatim>\<open>catch\<close> the byte-level cleaner on the
  original bytes. \<^verbatim>\<open>result.warning || `Used byte-level fallback: ...`\<close> takes the second
  text when the first is absent or empty.
\<close>

definition cleanPDF :: "PDFLib \<Rightarrow> bytes \<Rightarrow> CleaningOptions \<Rightarrow> CleanResult" where
  "cleanPDF lib pdfBytes options =
     (case structuralPass lib pdfBytes options of
        Inr result \<Rightarrow> result
      | Inl message \<Rightarrow>
          (let result = cleanPDFBytes pdfBytes options
           in \<lparr>blob = cleaned result, itemsRemoved' = itemsRemoved result,
               warning' = Some (case warning result of
                                  None \<Rightarrow> ''Used byte-level fallback: '' @ message
                                | Some w \<Rightarrow> if w = []
                                            then ''Used byte-level fallback: '' @ message
                                            else w)\<rparr>))"

subsection \<open>The message handler\<close>

text \<open>
  \<^verbatim>\<open>self.onmessage\<close>. Reading the file (\<^verbatim>\<open>file.arrayBuffer()\<close>) gives its bytes or fails; the
  cleaner is a parameter that returns or throws. The result is the message posted, or
  \<open>Inl\<close> when an exception leaves the handler.
\<close>

record File =
  arrayBuffer :: "string + bytes"

record Message = CleanResult +
  success :: bool

definition onmessage ::
  "(bytes \<Rightarrow> CleaningOptions \<Rightarrow> string + CleanResult) \<Rightarrow> File \<Rightarrow> CleaningOptions
     \<Rightarrow> string + Message" where
  "onmessage clean file options =
     (case (case arrayBuffer file of
              Inl message \<Rightarrow> Inl message
            | Inr pdfBytes \<Rightarrow> clean pdfBytes options) of
        Inr result \<Rightarrow>
          Inr \<lparr>blob = blob result, itemsRemoved' = itemsRemoved' result,
               warning' = warning' result, success = True\<rparr>
      | Inl message \<Rightarrow>
          (case arrayBuffer file of
             Inl message' \<Rightarrow> Inl message'
           | Inr original \<Rightarrow>
               Inr \<lparr>blob = original, itemsRemoved' = [],
                    warning' = Some (''Could not clean PDF: '' @ message), success = True\<rparr>))"

definition sanitize :: "PDFLib \<Rightarrow> File \<Rightarrow> CleaningOptions \<Rightarrow> string + Message" where
  "sanitize lib file options = onmessage (\<lambda>b opts. Inr (cleanPDF lib b opts)) file options"

text \<open>A rendering of objects in the style of the library, for the examples.\<close>

fun render :: "PDFObject \<Rightarrow> string" where
  "render (PDFName n) = CHR ''/'' # n"
| "render (PDFRef n g) = decimal n @ '' '' @ decimal g @ '' R''"
| "render (PDFDict d) =
     ''<<'' @ concat (map (\<lambda>e. '' /'' @ fst e @ '' '' @ render (snd e)) d) @ '' >>''"
| "render (PDFArray xs) = ''[ '' @ concat (map (\<lambda>x. render x @ '' '') xs) @ '']''"
| "render (PDFOther s) = s"

definition internalLink :: PDFObject where
  "internalLink =
     PDFDict [(''Type'', PDFName ''Annot''), (''Subtype'', PDFName ''Link''),
              (''A'', PDFDict [(''S'', PDFName ''GoTo''),
                               (''D'', PDFArray [PDFRef 3 0, PDFName ''Fit''])])]"

definition exampleContext :: PDFContext where
  "exampleContext =
     \<lparr>indirectObjects = [((12, 0), PDFArray [PDFRef 13 0]), ((13, 0), internalLink)],
      largestObjectNumber = 13\<rparr>"

text \<open>
  C7. The property: on the structural path a link annotation is dropped exactly when
  \<^verbatim>\<open>removeLinks\<close> is set and its action is external; internal \<^verbatim>\<open>/GoTo\<close> links are kept, and
  an annotation that is kept keeps its reference. Take an internal link (\<^verbatim>\<open>/S /GoTo\<close> with
  the destination \<^verbatim>\<open>[3 0 R /Fit]\<close>), object 13, on a page, with \<^verbatim>\<open>removeLinks\<close>. When
  \<^verbatim>\<open>/Annots\<close> is a reference to the array \<^verbatim>\<open>[13 0 R]\<close> (object 12), no branch handles it, whatever tag the library gives to references: the
  entry is not an array, and the branch for a single reference, if taken, looks it up and
  finds no dictionary. An empty array is stored, so the link is dropped and nothing is
  reported. When \<^verbatim>\<open>/Annots\<close> is a reference to the link itself and references carry the tag
  that \<^verbatim>\<open>isPDFRef\<close> expects, the link is dropped too, since that branch does not look at the
  action. The array branch, on the array \<^verbatim>\<open>[13 0 R]\<close> itself, keeps the link with its
  reference.
\<close>

theorem annots_reference_drops_internal_link:
  "cleanAnnots tag render alloc linksOnly [(''Type'', PDFName ''Page''), (''Annots'', PDFRef 12 0)]
     ([], exampleContext) =
     ([(''Type'', PDFName ''Page''), (''Annots'', PDFArray [])], [], exampleContext) \<and>
   cleanAnnots (\<lambda>n g. ''PDFRef'') render alloc linksOnly
     [(''Type'', PDFName ''Page''), (''Annots'', PDFRef 13 0)] ([], exampleContext) =
     ([(''Type'', PDFName ''Page''), (''Annots'', PDFArray [])], [''Removed link annotation''],
      exampleContext) \<and>
   cleanAnnots (\<lambda>n g. ''PDFRef'') render alloc linksOnly
     [(''Type'', PDFName ''Page''), (''Annots'', PDFArray [PDFRef 13 0])] ([], exampleContext) =
     ([(''Type'', PDFName ''Page''), (''Annots'', PDFArray [PDFRef 13 0])], [], exampleContext)"
proof -
  have a: "cleanAnnots tag render alloc linksOnly
             [(''Type'', PDFName ''Page''), (''Annots'', PDFRef 12 0)] ([], exampleContext) =
           ([(''Type'', PDFName ''Page''), (''Annots'', PDFArray [])], [], exampleContext)"
    by (cases "tag 12 0 = ''PDFRef''")
       (simp_all add: cleanAnnots_def cleanSingleAnnotation_def dictGet_def dictSet_def
          exampleContext_def Let_def)
  have b: "cleanAnnots (\<lambda>n g. ''PDFRef'') render alloc linksOnly
             [(''Type'', PDFName ''Page''), (''Annots'', PDFRef 13 0)] ([], exampleContext) =
           ([(''Type'', PDFName ''Page''), (''Annots'', PDFArray [])],
            [''Removed link annotation''], exampleContext)"
    by code_simp
  have c: "cleanAnnots (\<lambda>n g. ''PDFRef'') render alloc linksOnly
             [(''Type'', PDFName ''Page''), (''Annots'', PDFArray [PDFRef 13 0])]
             ([], exampleContext) =
           ([(''Type'', PDFName ''Page''), (''Annots'', PDFArray [PDFRef 13 0])], [],
            exampleContext)"
    by code_simp
  from a b c show ?thesis by simp
qed

text \<open>
  C1. On the byte-level path, that is when the structural pass throws (the parser cannot
  load the bytes, or cannot save), the buffer returned has exactly the length of the input.
\<close>

theorem byte_level_path_length:
  "structuralPass lib b options = Inl message \<Longrightarrow>
   length (blob (cleanPDF lib b options)) = length b"
  by (simp add: cleanPDF_def Let_def cleanPDFBytes_same_length)

theorem byte_level_path_length_witness:
  "structuralPass
     \<lparr>loadPDF = (\<lambda>b. Inl ''No PDF header found''), savePDF = (\<lambda>d. Inl ''not saved''),
      toString = render, refTag = (\<lambda>n g. ''PDFRef''),
      allocate = (\<lambda>c obj. Inl ''not a function'')\<rparr>
     ''/OpenAction 1 0 R (http://a.example/)'' allTrue = Inl ''No PDF header found'' \<and>
   length (blob (cleanPDF
     \<lparr>loadPDF = (\<lambda>b. Inl ''No PDF header found''), savePDF = (\<lambda>d. Inl ''not saved''),
      toString = render, refTag = (\<lambda>n g. ''PDFRef''),
      allocate = (\<lambda>c obj. Inl ''not a function'')\<rparr>
     ''/OpenAction 1 0 R (http://a.example/)'' allTrue)) =
     length ''/OpenAction 1 0 R (http://a.example/)''"
proof -
  let ?lib = "\<lparr>loadPDF = (\<lambda>b. Inl ''No PDF header found''), savePDF = (\<lambda>d. Inl ''not saved''),
               toString = render, refTag = (\<lambda>n g. ''PDFRef''),
      allocate = (\<lambda>c obj. Inl ''not a function'')\<rparr>"
  have h: "structuralPass ?lib ''/OpenAction 1 0 R (http://a.example/)'' allTrue =
             Inl ''No PDF header found''"
    by (simp add: structuralPass_def)
  from h byte_level_path_length [OF h] show ?thesis by simp
qed

text \<open>
  C9. For a file whose bytes can be read, the handler always posts a message and no
  exception leaves it, whatever the parser library does; and whenever the cleaner it runs
  throws, with cause \<open>c\<close>, the message carries the original bytes, an empty removal list and
  the warning \<^verbatim>\<open>Could not clean PDF: c\<close>.
\<close>

theorem onmessage_total:
  assumes "arrayBuffer file = Inr b"
  shows "(\<exists>msg. sanitize lib file options = Inr msg \<and> success msg) \<and>
         (\<exists>msg. onmessage clean file options = Inr msg \<and> success msg \<and>
            (\<forall>c. clean b options = Inl c \<longrightarrow>
                   blob msg = b \<and> itemsRemoved' msg = [] \<and>
                   warning' msg = Some (''Could not clean PDF: '' @ c)))"
  using assms
  by (cases "clean b options") (simp_all add: onmessage_def sanitize_def)

theorem onmessage_total_witness:
  "arrayBuffer \<lparr>arrayBuffer = Inr ''%PDF-1.4''\<rparr> = Inr ''%PDF-1.4'' \<and>
   (\<exists>msg. onmessage (\<lambda>b opts. Inl ''Invalid string length'')
            \<lparr>arrayBuffer = Inr ''%PDF-1.4''\<rparr> allTrue = Inr msg \<and>
          success msg \<and> blob msg = ''%PDF-1.4'' \<and> itemsRemoved' msg = [] \<and>
          warning' msg = Some ''Could not clean PDF: Invalid string length'')"
proof -
  have h: "arrayBuffer \<lparr>arrayBuffer = Inr ''%PDF-1.4''\<rparr> = Inr ''%PDF-1.4''" by simp
  from onmessage_total [OF h, of _ allTrue "\<lambda>b opts. Inl ''Invalid string length''"]
  show ?thesis by auto
qed


end
